theory Spec2Isabelle
  imports Main "HOL-Library.Multiset"
begin

section \<open>Go strings\<close>

text \<open>
  A Go string is a byte sequence holding UTF-8 text; \<open>regexp\<close> and \<open>strings\<close> read it
  rune by rune. The model keeps a string as the list of its code points (valid UTF-8
  is assumed throughout), and \<open>go_len\<close> gives what Go's \<open>len\<close> counts: bytes.
  Substring search, splitting and replacement agree on bytes and on code points,
  because UTF-8 is self-synchronising.
\<close>

type_synonym rune = int
type_synonym gostring = "rune list"

definition asc :: "string \<Rightarrow> gostring" where
  "asc s = map of_char s"

definition utf8_width :: "rune \<Rightarrow> nat" where
  "utf8_width c = (if c < 0x80 then 1 else if c < 0x800 then 2 else if c < 0x10000 then 3 else 4)"

definition go_len :: "gostring \<Rightarrow> nat" where
  "go_len s = sum_list (map utf8_width s)"

fun HasPrefix :: "gostring \<Rightarrow> gostring \<Rightarrow> bool" where
  "HasPrefix s [] = True"
| "HasPrefix [] (p # ps) = False"
| "HasPrefix (x # xs) (p # ps) = (x = p \<and> HasPrefix xs ps)"

definition HasSuffix :: "gostring \<Rightarrow> gostring \<Rightarrow> bool" where
  "HasSuffix s suf = HasPrefix (rev s) (rev suf)"

fun Contains :: "gostring \<Rightarrow> gostring \<Rightarrow> bool" where
  "Contains [] sub = (sub = [])"
| "Contains (x # xs) sub = (HasPrefix (x # xs) sub \<or> Contains xs sub)"

text \<open>\<open>strings.Split\<close> for a non-empty separator: the pieces between its occurrences.\<close>

fun split_acc :: "gostring \<Rightarrow> gostring \<Rightarrow> gostring \<Rightarrow> gostring list" where
  "split_acc acc sep [] = [rev acc]"
| "split_acc acc sep (x # xs) =
     (if HasPrefix (x # xs) sep \<and> sep \<noteq> []
      then rev acc # split_acc [] sep (drop (length sep) (x # xs))
      else split_acc (x # acc) sep xs)"

definition Split :: "gostring \<Rightarrow> gostring \<Rightarrow> gostring list" where
  "Split s sep = split_acc [] sep s"

text \<open>\<open>strings.ReplaceAll\<close> for a non-empty \<open>old\<close>: non-overlapping occurrences, left to right.\<close>

fun ReplaceAll :: "gostring \<Rightarrow> gostring \<Rightarrow> gostring \<Rightarrow> gostring" where
  "ReplaceAll [] old new = []"
| "ReplaceAll (x # xs) old new =
     (if HasPrefix (x # xs) old \<and> old \<noteq> []
      then new @ ReplaceAll (drop (length old) (x # xs)) old new
      else x # ReplaceAll xs old new)"

fun Join :: "gostring list \<Rightarrow> gostring \<Rightarrow> gostring" where
  "Join [] sep = []"
| "Join [x] sep = x"
| "Join (x # y # ys) sep = x @ sep @ Join (y # ys) sep"

text \<open>\<open>unicode.IsSpace\<close>, the White_Space property, which \<open>strings.TrimSpace\<close> trims.\<close>

definition IsSpace :: "rune \<Rightarrow> bool" where
  "IsSpace c = ((0x09 \<le> c \<and> c \<le> 0x0D) \<or> c = 0x20 \<or> c = 0x85 \<or> c = 0xA0 \<or> c = 0x1680
     \<or> (0x2000 \<le> c \<and> c \<le> 0x200A) \<or> c = 0x2028 \<or> c = 0x2029 \<or> c = 0x202F \<or> c = 0x205F
     \<or> c = 0x3000)"

definition TrimSpace :: "gostring \<Rightarrow> gostring" where
  "TrimSpace s = rev (dropWhile IsSpace (rev (dropWhile IsSpace s)))"

section \<open>Regular expressions\<close>

text \<open>
  Go's \<open>regexp\<close> (RE2 syntax) returns the leftmost match and, among the matches that
  start there, the one a backtracking matcher finds first: the left alternative before
  the right one, a greedy repetition as long as possible and a lazy one as short as
  possible. \<open>matches r cur\<close> lists every way \<open>r\<close> matches at the cursor in that order
  of preference; a cursor is the rune before the position (for \<open>\b\<close>) and the rest
  of the text.
\<close>

type_synonym cursor = "rune option \<times> gostring"

datatype regex =
    Eps
  | Chr rune
  | Cls bool "(rune \<times> rune) list"
  | Seq regex regex
  | Alt regex regex
  | Star regex
  | StarLazy regex
  | WordB
  | Eol

definition in_ranges :: "(rune \<times> rune) list \<Rightarrow> rune \<Rightarrow> bool" where
  "in_ranges rs c = list_ex (\<lambda>r. fst r \<le> c \<and> c \<le> snd r) rs"

text \<open>\<open>\b\<close> is an ASCII word boundary: \<open>[0-9A-Za-z_]\<close> on exactly one side.\<close>

definition is_word :: "rune option \<Rightarrow> bool" where
  "is_word p = (case p of None \<Rightarrow> False
     | Some c \<Rightarrow> in_ranges [(0x30, 0x39), (0x41, 0x5A), (0x5F, 0x5F), (0x61, 0x7A)] c)"

definition next_rune :: "gostring \<Rightarrow> rune option" where
  "next_rune s = (case s of [] \<Rightarrow> None | x # _ \<Rightarrow> Some x)"

text \<open>
  \<open>Cls neg rs\<close> is a character class of ranges, negated when \<open>neg\<close> holds. A repetition
  only iterates over a body match that consumed text.
\<close>

function matches :: "regex \<Rightarrow> cursor \<Rightarrow> cursor list" where
  "matches Eps cur = [cur]"
| "matches (Chr c) cur =
     (case snd cur of [] \<Rightarrow> [] | x # xs \<Rightarrow> if x = c then [(Some x, xs)] else [])"
| "matches (Cls neg rs) cur =
     (case snd cur of [] \<Rightarrow> []
      | x # xs \<Rightarrow> if in_ranges rs x \<noteq> neg then [(Some x, xs)] else [])"
| "matches (Seq a b) cur = concat (map (\<lambda>c'. matches b c') (matches a cur))"
| "matches (Alt a b) cur = matches a cur @ matches b cur"
| "matches (Star a) cur =
     concat (map (\<lambda>c'. if length (snd c') < length (snd cur) then matches (Star a) c' else [])
                 (matches a cur)) @ [cur]"
| "matches (StarLazy a) cur =
     cur # concat (map (\<lambda>c'. if length (snd c') < length (snd cur)
                             then matches (StarLazy a) c' else [])
                       (matches a cur))"
| "matches WordB cur =
     (if is_word (fst cur) \<noteq> is_word (next_rune (snd cur)) then [cur] else [])"
| "matches Eol cur = (if snd cur = [] then [cur] else [])"
  by pat_completeness auto
termination
  by (relation "(\<lambda>(r, c). size r) <*mlex*> measure (\<lambda>(r, c). length (snd c))")
     (auto simp: wf_mlex mlex_less mlex_leq)

fun Str :: "gostring \<Rightarrow> regex" where
  "Str [] = Eps"
| "Str (c # cs) = Seq (Chr c) (Str cs)"

fun rpow :: "nat \<Rightarrow> regex \<Rightarrow> regex" where
  "rpow 0 r = Eps"
| "rpow (Suc k) r = Seq r (rpow k r)"

fun upto_n :: "nat \<Rightarrow> regex \<Rightarrow> regex" where
  "upto_n 0 r = Eps"
| "upto_n (Suc k) r = Alt (Seq r (upto_n k r)) Eps"

text \<open>\<open>r{m,n}\<close>, greedy.\<close>

definition Repeat :: "nat \<Rightarrow> nat \<Rightarrow> regex \<Rightarrow> regex" where
  "Repeat m n r = Seq (rpow m r) (upto_n (n - m) r)"

fun Alts :: "regex list \<Rightarrow> regex" where
  "Alts [] = Cls False []"
| "Alts [r] = r"
| "Alts (r # rs) = Alt r (Alts rs)"

fun Seqs :: "regex list \<Rightarrow> regex" where
  "Seqs [] = Eps"
| "Seqs [r] = r"
| "Seqs (r # rs) = Seq r (Seqs rs)"

text \<open>\<open>\d\<close> and \<open>\s\<close> are ASCII classes in RE2: \<open>[0-9]\<close> and \<open>[\t\n\f\r ]\<close>.\<close>

definition digit :: regex where
  "digit = Cls False [(0x30, 0x39)]"

definition wspace :: regex where
  "wspace = Cls False [(0x09, 0x0A), (0x0C, 0x0D), (0x20, 0x20)]"

fun search :: "regex \<Rightarrow> cursor \<Rightarrow> bool" where
  "search r (p, []) = (matches r (p, []) \<noteq> [])"
| "search r (p, x # xs) = (matches r (p, x # xs) \<noteq> [] \<or> search r (Some x, xs))"

definition MatchString :: "regex \<Rightarrow> gostring \<Rightarrow> bool" where
  "MatchString r s = search r (None, s)"

text \<open>
  \<open>ReplaceAllString\<close> with a replacement that holds no \<open>$\<close>: each leftmost match is
  replaced and the scan goes on after it. Every pattern of the program consumes at least
  one rune when it matches, so a match that consumes nothing counts as none here.
\<close>

function replace_from :: "regex \<Rightarrow> gostring \<Rightarrow> cursor \<Rightarrow> gostring" where
  "replace_from r repl (p, []) = []"
| "replace_from r repl (p, x # xs) =
     (case matches r (p, x # xs) of
        [] \<Rightarrow> x # replace_from r repl (Some x, xs)
      | c' # _ \<Rightarrow>
          if length (snd c') < length (x # xs) then repl @ replace_from r repl c'
          else x # replace_from r repl (Some x, xs))"
  by pat_completeness auto
termination
  by (relation "measure (\<lambda>(r, repl, c). length (snd c))") auto

definition ReplaceAllString :: "regex \<Rightarrow> gostring \<Rightarrow> gostring \<Rightarrow> gostring" where
  "ReplaceAllString r src repl = replace_from r repl (None, src)"

section \<open>URLs\<close>

text \<open>
  The fields of \<open>url.URL\<close> that the program reads or that \<open>String\<close> prints. \<open>URL_String\<close>
  follows the \<open>String\<close> method for a URL without opaque part, user information or forced
  query, whose host, path and fragment need no percent-encoding:
  \<open>scheme://host/path?query#fragment\<close>, with \<open>./\<close> before a relative path whose
  first segment holds a colon.
\<close>

record URL =
  Scheme :: gostring
  Host :: gostring
  Path :: gostring
  RawQuery :: gostring
  Fragment :: gostring

definition URL_String :: "URL \<Rightarrow> gostring" where
  "URL_String u =
     (if Scheme u = [] then [] else Scheme u @ asc '':'')
     @ (if Scheme u = [] \<and> Host u = [] then []
        else if Host u = [] \<and> Path u = [] then []
        else asc ''//'')
     @ Host u
     @ (if Path u = [] then []
        else if HasPrefix (Path u) (asc ''/'') then []
        else if Host u = [] then []
        else asc ''/'')
     @ (if Scheme u = [] \<and> Host u = [] \<and> Contains (Split (Path u) (asc ''/'') ! 0) (asc '':'')
        then asc ''./'' else [])
     @ Path u
     @ (if RawQuery u = [] then [] else asc ''?'' @ RawQuery u)
     @ (if Fragment u = [] then [] else asc ''#'' @ Fragment u)"

section \<open>The URL classifier\<close>

text \<open>The 24 excluded path patterns of \<open>isStorePage\<close>, in the source's order.\<close>

definition excludedPatterns :: "regex list" where
  "excludedPatterns = [
     Str (asc ''/dtlrvwlst/''),
     Str (asc ''/rvwr/''),
     Str (asc ''/user/''),
     Str (asc ''/member/''),
     Str (asc ''/review/''),
     Str (asc ''/diary/''),
     Str (asc ''/photo/''),
     Str (asc ''/dtlphotolst/''),
     Str (asc ''/dtlmenu/''),
     Str (asc ''/dtlmap/''),
     Str (asc ''/help/''),
     Str (asc ''/terms/''),
     Str (asc ''/sitemap/''),
     Str (asc ''/rstLst/''),
     Str (asc ''/word/''),
     Str (asc ''/cond/''),
     Str (asc ''/catLst/''),
     Str (asc ''/aream/''),
     Str (asc ''/wiki/''),
     Str (asc ''/favorite/''),
     Str (asc ''/lunch/''),
     Str (asc ''/dinner/''),
     Str (asc ''/party/''),
     Str (asc ''/matome/'')]"

text \<open>\<open>tabelog\.com/[a-z]{2,8}/A\d{3,4}/A\d{3,6}/(\d{8}|\d{10})/?$\<close>\<close>

definition storePageRegex :: regex where
  "storePageRegex = Seqs [
     Str (asc ''tabelog.com/''),
     Repeat 2 8 (Cls False [(0x61, 0x7A)]), Chr 0x2F,
     Chr 0x41, Repeat 3 4 digit, Chr 0x2F,
     Chr 0x41, Repeat 3 6 digit, Chr 0x2F,
     Alt (rpow 8 digit) (rpow 10 digit),
     Alt (Chr 0x2F) Eps,
     Eol]"

definition isStorePage :: "URL \<Rightarrow> bool" where
  "isStorePage u =
     (let host = Host u; path = Path u in
      if \<not> Contains host (asc ''tabelog.com'') then False
      else if Contains path (asc ''/en/'') then False
      else if list_ex (\<lambda>p. MatchString p path) excludedPatterns then False
      else if MatchString storePageRegex (URL_String u) then True
      else False)"

section \<open>The name normalizer\<close>

text \<open>
  The reviewer names removed literally by \<open>extractStoreName\<close> (\<open>specificUsers\<close>), in the
  source's order; names outside ASCII are given by their code points.
\<close>

definition specificUsers :: "gostring list" where
  "specificUsers = [
     [0x7A32, 0x6BDB, 0x5C4B],
     asc ''maro-j'',
     [0x306F, 0x3089, 0x307A, 0x3053, 0x5927, 0x5C06],
     [0x30A2, 0x30E6, 0x30DC, 0x30EF, 0x30F3, 0xFF01],
     asc ''komedarian'',
     [0x3082, 0x306E, 0x3054, 0x3053, 0x308D],
     asc ''nobuta-nobu'',
     asc ''ramen-king'',
     [0x30B0, 0x30EB, 0x30DE, 0x30F3],
     [0x98DF, 0x3044, 0x3057, 0x3093, 0x574A],
     [0x98DF, 0x3079, 0x30ED, 0x30B0, 0x592A, 0x90CE],
     [0x30EC, 0x30D3, 0x30E5, 0x30A2, 0x30FC],
     [0x30EC, 0x30D3, 0x30E5, 0x30A2, 0x30FC, 0x30DE, 0x30B9, 0x30BF, 0x30FC],
     [0x7F8E, 0x98DF, 0x5BB6],
     [0x30B0, 0x30EB, 0x30E1, 0x30AD, 0x30F3, 0x30B0],
     [0x30B0, 0x30EB, 0x30E1, 0x63A2, 0x5075],
     [0x98DF, 0x3079, 0x30ED, 0x30B0, 0x30EC, 0x30D3, 0x30E5, 0x30A2, 0x30FC],
     [0x30A2, 0x30E6, 0x30DC, 0x30EF, 0x30F3],
     asc ''honnesan'',
     asc ''taniy'',
     asc ''dragonfly8810'',
     asc ''ropefish'',
     [0x5409, 0x7530, 0x52],
     [0x57, 0x69, 0x6E, 0x65, 0x2C, 0x20, 0x77, 0x6F, 0x6D, 0x65, 0x6E, 0x20, 0x61, 0x6E, 0x27, 0x20, 0x73, 0x6F, 0x6E, 0x67],
     asc ''Shoebill'',
     [0x30AF, 0x30B9, 0x30AF, 0x30B9],
     [0x30C8, 0x30AB, 0x30C8, 0x30F3, 0x30C8, 0x30F3, 0x30AC, 0x30E9, 0x30B7],
     [0x3073, 0x3057, 0x304F, 0x308C, 0x305F],
     [0x304A, 0x3082, 0x3072, 0x3067, 0x5B9A, 0x98DF],
     [0x305F, 0x3051, 0x31, 0x30, 0x32, 0x35],
     [0x30D8, 0x30EB],
     [0x305F, 0x3089, 0x304F, 0x20, 0x65E5, 0x66AE, 0x91CC, 0x5E97],
     [0x30CE, 0x30D6, 0x30D2, 0x30ED, 0xFF20, 0x4E0A, 0x91CE],
     [0x990A, 0x548C, 0x8ED2],
     [0x30A4, 0x30C9, 0x30AB, 0x30E4, 0xFF17, 0xFF19, 0xFF17],
     [0x30B7, 0x30EB, 0x30AF, 0x30ED, 0x30FC, 0x30C9],
     [0x305F, 0x3051, 0x3068, 0x3093, 0x305F, 0x3093, 0x305F],
     [0x30AB, 0x30EC, 0x30FC, 0x304A, 0x3058, 0x3055, 0x3093, 0xFF3C, 0xFF0F],
     [0x3086, 0x3059, 0x3051],
     [0x7384, 0x6D77, 0x5BFF, 0x53F8, 0x20, 0x672C, 0x5E97],
     [0x5357, 0x5E4C]]"

text \<open>
  The patterns of \<open>extractStoreName\<close>, one constant for each \<open>regexp.MustCompile\<close> in
  the order of the source (runes outside ASCII are written U+hhhh):
  \<^item> \<open>reHonorific\<close>: \<open>\s*(?:U+3055 U+3093|U+6C0F|U+69D8|U+3061 U+3083 U+3093|U+541B)\s*\<close>
  \<^item> \<open>reNanashi\<close>: the literal \<open>U+FF08 U+540D U+7121 U+3057 U+FF09\<close>
  \<^item> \<open>reParen\<close>: \<open>\s*\([^\)]*?\)\<close>
  \<^item> \<open>reSquare\<close>: \<open>\s*\[[^\]]*?\]\<close>
  \<^item> \<open>reLenticular\<close>: \<open>U+3010 [^U+3011]*? U+3011\<close>
  \<^item> \<open>reDoubleAngle\<close>: \<open>U+300A [^U+300B]*? U+300B\<close>
  \<^item> \<open>reToken\<close>: \<open>\b[a-zA-Z0-9_]{3,15}\b\<close>
  \<^item> \<open>reSiteWords\<close>: \<open>\b(?:U+30A4 U+30B3 U+30C3 U+30C8|U+30AF U+30C1 U+30B3 U+30DF|U+98DF U+3079 U+30ED U+30B0)\b\<close>
  \<^item> \<open>rePopularN\<close>: \<open>U+4EBA U+6C17 U+5E97 \d* U+9078\<close>
  \<^item> \<open>reLunch\<close>: the literal \<open>U+304A U+3059 U+3059 U+3081 U+30E9 U+30F3 U+30C1\<close>
  \<^item> \<open>reNo\<close>: \<open>U+306E\<close> followed by one rune of the class
    \<open>[U+304A U+5E97 | U+30B0 U+30EB U+30E1 | U+30E9 U+30F3 U+30C1 | U+540D U+5E97 | U+4EBA U+6C17 U+5E97]\<close>
    (a bracket expression, so \<open>|\<close> is a member and the words are sets of runes)
  \<^item> \<open>reNSen\<close>: \<open>[\d]+ U+9078\<close>
  \<^item> \<open>reLatest\<close>: the literal \<open>U+3010 U+6700 U+65B0 U+7248 U+3011\<close>
  \<^item> \<open>reTilde\<close>: \<open>U+FF5E [^U+FF5E]* U+FF5E\<close>
  \<^item> \<open>reMatome\<close>: the literal \<open>U+98DF U+3079 U+30ED U+30B0 U+307E U+3068 U+3081\<close>
  \<^item> \<open>reSpaces\<close>: \<open>\s+\<close>
  \<^item> \<open>reValid\<close>: \<open>[a-zA-Z0-9\p{Han}\p{Hiragana}\p{Katakana}]\<close>
\<close>

definition reHonorific :: regex where
  "reHonorific = Seqs [
     Star wspace,
     Alts [Str [0x3055, 0x3093], Str [0x6C0F], Str [0x69D8], Str [0x3061, 0x3083, 0x3093],
           Str [0x541B]],
     Star wspace]"

definition reNanashi :: regex where
  "reNanashi = Str [0xFF08, 0x540D, 0x7121, 0x3057, 0xFF09]"

definition reParen :: regex where
  "reParen = Seqs [Star wspace, Chr 0x28, StarLazy (Cls True [(0x29, 0x29)]), Chr 0x29]"

definition reSquare :: regex where
  "reSquare = Seqs [Star wspace, Chr 0x5B, StarLazy (Cls True [(0x5D, 0x5D)]), Chr 0x5D]"

definition reLenticular :: regex where
  "reLenticular = Seqs [Chr 0x3010, StarLazy (Cls True [(0x3011, 0x3011)]), Chr 0x3011]"

definition reDoubleAngle :: regex where
  "reDoubleAngle = Seqs [Chr 0x300A, StarLazy (Cls True [(0x300B, 0x300B)]), Chr 0x300B]"

definition reToken :: regex where
  "reToken = Seqs [
     WordB,
     Repeat 3 15 (Cls False [(0x61, 0x7A), (0x41, 0x5A), (0x30, 0x39), (0x5F, 0x5F)]),
     WordB]"

definition reSiteWords :: regex where
  "reSiteWords = Seqs [
     WordB,
     Alts [Str [0x30A4, 0x30B3, 0x30C3, 0x30C8], Str [0x30AF, 0x30C1, 0x30B3, 0x30DF],
           Str [0x98DF, 0x3079, 0x30ED, 0x30B0]],
     WordB]"

definition rePopularN :: regex where
  "rePopularN = Seqs [Str [0x4EBA, 0x6C17, 0x5E97], Star digit, Chr 0x9078]"

definition reLunch :: regex where
  "reLunch = Str [0x304A, 0x3059, 0x3059, 0x3081, 0x30E9, 0x30F3, 0x30C1]"

definition reNo :: regex where
  "reNo = Seq (Chr 0x306E)
     (Cls False (map (\<lambda>c. (c, c))
        [0x304A, 0x5E97, 0x7C, 0x30B0, 0x30EB, 0x30E1, 0x7C, 0x30E9, 0x30F3, 0x30C1, 0x7C,
         0x540D, 0x5E97, 0x7C, 0x4EBA, 0x6C17, 0x5E97]))"

definition reNSen :: regex where
  "reNSen = Seqs [digit, Star digit, Chr 0x9078]"

definition reLatest :: regex where
  "reLatest = Str [0x3010, 0x6700, 0x65B0, 0x7248, 0x3011]"

definition reTilde :: regex where
  "reTilde = Seqs [Chr 0xFF5E, Star (Cls True [(0xFF5E, 0xFF5E)]), Chr 0xFF5E]"

definition reMatome :: regex where
  "reMatome = Str [0x98DF, 0x3079, 0x30ED, 0x30B0, 0x307E, 0x3068, 0x3081]"

definition reSpaces :: regex where
  "reSpaces = Seq wspace (Star wspace)"

text \<open>
  The Unicode scripts Han, Hiragana and Katakana as ranges of code points, after the
  range tables of Go's \<open>unicode\<close> package (Unicode 15).
\<close>

definition script_Han :: "(rune \<times> rune) list" where
  "script_Han = [(0x2E80, 0x2E99), (0x2E9B, 0x2EF3), (0x2F00, 0x2FD5), (0x3005, 0x3005),
     (0x3007, 0x3007), (0x3021, 0x3029), (0x3038, 0x303B), (0x3400, 0x4DBF), (0x4E00, 0x9FFF),
     (0xF900, 0xFA6D), (0xFA70, 0xFAD9), (0x16FE2, 0x16FE3), (0x16FF0, 0x16FF1),
     (0x20000, 0x2A6DF), (0x2A700, 0x2B739), (0x2B740, 0x2B81D), (0x2B820, 0x2CEA1),
     (0x2CEB0, 0x2EBE0), (0x2F800, 0x2FA1D), (0x30000, 0x3134A), (0x31350, 0x323AF)]"

definition script_Hiragana :: "(rune \<times> rune) list" where
  "script_Hiragana = [(0x3041, 0x3096), (0x309D, 0x309F), (0x1B001, 0x1B11F), (0x1B132, 0x1B132),
     (0x1B150, 0x1B152), (0x1F200, 0x1F200)]"

definition script_Katakana :: "(rune \<times> rune) list" where
  "script_Katakana = [(0x30A1, 0x30FA), (0x30FD, 0x30FF), (0x31F0, 0x31FF), (0x32D0, 0x32FE),
     (0x3300, 0x3357), (0xFF66, 0xFF6F), (0xFF71, 0xFF9D), (0x1AFF0, 0x1AFF3), (0x1AFF5, 0x1AFFB),
     (0x1AFFD, 0x1AFFE), (0x1B000, 0x1B000), (0x1B120, 0x1B122), (0x1B155, 0x1B155),
     (0x1B164, 0x1B167)]"

definition reValid :: regex where
  "reValid = Cls False ([(0x61, 0x7A), (0x41, 0x5A), (0x30, 0x39)]
     @ script_Han @ script_Hiragana @ script_Katakana)"

text \<open>
  The cleaning stages of \<open>extractStoreName\<close>, lines 114 to 169 of the source: the three
  separator cuts, the patterns before the stoplist, the stoplist, the patterns after it,
  the literal clean-up, and the whitespace collapse with \<open>strings.TrimSpace\<close>.
\<close>

definition cut_at :: "gostring \<Rightarrow> gostring \<Rightarrow> gostring" where
  "cut_at sep title = (if Contains title sep then Split title sep ! 0 else title)"

definition remove_users :: "gostring \<Rightarrow> gostring" where
  "remove_users title = foldl (\<lambda>t user. ReplaceAll t user []) title specificUsers"

definition clean_title :: "gostring \<Rightarrow> gostring" where
  "clean_title title0 =
     (let title = cut_at (asc ''|'') title0;
          title = cut_at (asc ''-'') title;
          title = cut_at (asc ''/'') title;
          title = ReplaceAllString reHonorific title [];
          title = ReplaceAllString reNanashi title [];
          title = ReplaceAllString reParen title [];
          title = ReplaceAllString reSquare title [];
          title = ReplaceAllString reLenticular title [];
          title = ReplaceAllString reDoubleAngle title [];
          title = remove_users title;
          title = ReplaceAllString reToken title [];
          title = ReplaceAllString reSiteWords title [];
          title = ReplaceAllString rePopularN title [];
          title = ReplaceAllString reLunch title [];
          title = ReplaceAllString reNo title [];
          title = ReplaceAllString reNSen title [];
          title = ReplaceAllString reLatest title [];
          title = ReplaceAllString reTilde title [];
          title = ReplaceAllString reMatome title [];
          title = ReplaceAll title (asc ''...'') [];
          title = ReplaceAll title [0x3000] (asc '' '');
          title = ReplaceAll title [0xFF5C] [];
          title = ReplaceAll title [0x30FC] [];
          title = ReplaceAll title [0xFF5E] [];
          title = ReplaceAll title [0x300E] [];
          title = ReplaceAll title [0x300F] [];
          title = ReplaceAll title [0x300C] [];
          title = ReplaceAll title [0x300D] [];
          title = ReplaceAll title [0x22] []
      in TrimSpace (ReplaceAllString reSpaces title (asc '' '')))"

text \<open>
  The validity gate, lines 173 to 178: \<open>len(title) < 2\<close> counts bytes. The empty string
  is the rejection.
\<close>

definition extractStoreName :: "gostring \<Rightarrow> gostring" where
  "extractStoreName title0 =
     (let title = clean_title title0 in
      if go_len title < 2 \<or> \<not> MatchString reValid title then [] else title)"

section \<open>The link extractors\<close>

text \<open>
  What the program takes from outside: \<open>url.Parse\<close> and \<open>ResolveReference\<close> of
  \<open>net/url\<close>, the network behind \<open>http.Get\<close> (\<open>round_trip\<close>, the response body or
  \<open>None\<close> on an error), goquery's \<open>NewDocumentFromReader\<close> and \<open>Find\<close> (the matched
  anchors in document order), and the order in which a \<open>for ... range\<close> statement
  visits the entries of a Go map, which the language leaves open: \<open>range_map env i m\<close>
  is the order taken while result item \<open>i\<close> is processed, for a map \<open>m\<close> given by its
  entries in insertion order.
\<close>

record selection =
  Attr_href :: "gostring option"
  Text :: gostring

record 'doc env =
  url_Parse :: "gostring \<Rightarrow> URL option"
  ResolveReference :: "URL \<Rightarrow> URL \<Rightarrow> URL"
  round_trip :: "gostring \<Rightarrow> gostring option"
  NewDocumentFromReader :: "gostring \<Rightarrow> 'doc option"
  Find :: "'doc \<Rightarrow> gostring \<Rightarrow> selection list"
  range_map :: "nat \<Rightarrow> (gostring \<times> gostring) list \<Rightarrow> (gostring \<times> gostring) list"

text \<open>\<open>http.Get\<close> parses its argument with \<open>url.Parse\<close> and fails when that fails.\<close>

definition http_Get :: "'doc env \<Rightarrow> gostring \<Rightarrow> gostring option" where
  "http_Get env urlStr =
     (case url_Parse env urlStr of None \<Rightarrow> None | Some u \<Rightarrow> round_trip env urlStr)"

text \<open>
  A \<open>map[string]string\<close> is kept as its entries in insertion order, a
  \<open>map[string]bool\<close> that only ever stores \<open>true\<close> as the set of its keys.
\<close>

type_synonym linkmap = "(gostring \<times> gostring) list"

definition map_set :: "linkmap \<Rightarrow> gostring \<Rightarrow> gostring \<Rightarrow> linkmap" where
  "map_set m k v = (if k \<in> fst ` set m then map (\<lambda>e. if fst e = k then (k, v) else e) m
                    else m @ [(k, v)])"

text \<open>The CandidateKey: the URL string without one trailing \<open>/\<close>.\<close>

definition normalize_url :: "gostring \<Rightarrow> gostring" where
  "normalize_url s = (if HasSuffix s (asc ''/'') then butlast s else s)"

text \<open>
  The callback that both extractors pass to \<open>Each\<close> (lines 201 to 235 and 259 to 293,
  the same text but for the log messages).
\<close>

definition extract_anchor ::
  "'doc env \<Rightarrow> URL \<Rightarrow> linkmap \<times> gostring set \<Rightarrow> selection \<Rightarrow> linkmap \<times> gostring set" where
  "extract_anchor env baseURL st s =
     (case Attr_href s of
        None \<Rightarrow> st
      | Some href \<Rightarrow>
         (case url_Parse env href of
            None \<Rightarrow> st
          | Some parsed \<Rightarrow>
             (let resolved = ResolveReference env baseURL parsed in
              if isStorePage resolved then
                (let normalizedURL = normalize_url (URL_String resolved) in
                 if normalizedURL \<notin> snd st then
                   (let text = TrimSpace (Text s);
                        cleanText = extractStoreName text in
                    if cleanText \<noteq> []
                    then (map_set (fst st) normalizedURL cleanText, insert normalizedURL (snd st))
                    else st)
                 else st)
              else st)))"

definition matomeSelector :: gostring where
  "matomeSelector = asc ''.shop-list__item a, .summary-shop__title a, a[href*=''
     @ [0x27] @ asc ''tabelog.com'' @ [0x27] @ asc ''][class*='' @ [0x27]
     @ asc ''js-spot-link'' @ [0x27] @ asc '']''"

definition listingSelector :: gostring where
  "listingSelector = asc ''.list-rst__title a, .list-rst__wrap a, a.list-rst__rst-name-target''"

text \<open>
  The body shared by the two extractors. Where \<open>baseURL\<close> is parsed, \<open>http.Get\<close> has
  parsed the same string already, so the \<open>None\<close> branch there is never taken.
\<close>

definition fetch_links ::
  "gostring \<Rightarrow> 'doc env \<Rightarrow> gostring \<Rightarrow> gostring set \<Rightarrow> linkmap \<times> gostring set" where
  "fetch_links selector env urlStr seenURLs =
     (case http_Get env urlStr of
        None \<Rightarrow> ([], seenURLs)
      | Some body \<Rightarrow>
         (case NewDocumentFromReader env body of
            None \<Rightarrow> ([], seenURLs)
          | Some doc \<Rightarrow>
             (case url_Parse env urlStr of
                None \<Rightarrow> ([], seenURLs)
              | Some baseURL \<Rightarrow>
                  foldl (extract_anchor env baseURL) ([], seenURLs) (Find env doc selector))))"

definition fetchStoreLinksFromMatome ::
  "'doc env \<Rightarrow> gostring \<Rightarrow> gostring set \<Rightarrow> linkmap \<times> gostring set" where
  "fetchStoreLinksFromMatome = fetch_links matomeSelector"

definition fetchLinksFromListingPage ::
  "'doc env \<Rightarrow> gostring \<Rightarrow> gostring set \<Rightarrow> linkmap \<times> gostring set" where
  "fetchLinksFromListingPage = fetch_links listingSelector"

section \<open>The result aggregator\<close>

text \<open>
  \<open>SearchBrave\<close> from line 414 on, over the decoded \<open>results\<close> array. An item of the
  array is a JSON object or not; \<open>Obj title url\<close> gives its \<open>title\<close> and \<open>url\<close>
  fields where they are strings. The state holds the loop's variables, and one field
  more that the source does not have: \<open>titleKeys\<close> records, for each element of
  \<open>uniqueTitles\<close>, the CandidateKey it was appended under. No other field reads it.
\<close>

datatype json_item = NonMap | Obj "gostring option" "gostring option"

record agg_state =
  combinedTitles :: gostring
  uniqueTitles :: "gostring list"
  seenURLs :: "gostring set"
  collectedCount :: nat
  titleKeys :: "gostring list"

definition initial_state :: agg_state where
  "initial_state = \<lparr>combinedTitles = [], uniqueTitles = [], seenURLs = {}, collectedCount = 0,
                     titleKeys = []\<rparr>"

definition append_title :: "nat \<Rightarrow> agg_state \<Rightarrow> gostring \<times> gostring \<Rightarrow> agg_state" where
  "append_title maxTitles st kv =
     (if collectedCount st < maxTitles
      then st\<lparr>uniqueTitles := uniqueTitles st @ [snd kv],
              combinedTitles := combinedTitles st @ snd kv @ asc ''; '',
              collectedCount := collectedCount st + 1,
              titleKeys := titleKeys st @ [fst kv]\<rparr>
      else st)"

text \<open>The body of the loop over \<open>results\<close>, lines 427 to 507, for item \<open>i\<close>.\<close>

definition process_item :: "'doc env \<Rightarrow> nat \<Rightarrow> nat \<Rightarrow> json_item \<Rightarrow> agg_state \<Rightarrow> agg_state" where
  "process_item env maxTitles i item st =
     (case item of
        NonMap \<Rightarrow> st
      | Obj None _ \<Rightarrow> st
      | Obj (Some title) None \<Rightarrow> st
      | Obj (Some title) (Some urlStr) \<Rightarrow>
         (case url_Parse env urlStr of
            None \<Rightarrow> st
          | Some parsedURL \<Rightarrow>
             (let normalizedURL = normalize_url (URL_String parsedURL) in
              if normalizedURL \<in> seenURLs st then st
              else if \<not> Contains (Host parsedURL) (asc ''tabelog.com'') then st
              else if Contains (Path parsedURL) (asc ''/matome/'') then
                (let (storeTitlesFromMatome, seen') =
                       fetchStoreLinksFromMatome env urlStr (seenURLs st)
                 in foldl (append_title maxTitles) (st\<lparr>seenURLs := seen'\<rparr>)
                      (range_map env i storeTitlesFromMatome))
              else if Contains (Path parsedURL) (asc ''/rstLst/'') then
                (let (storesFromListing, seen') =
                       fetchLinksFromListingPage env urlStr (seenURLs st)
                 in foldl (append_title maxTitles) (st\<lparr>seenURLs := seen'\<rparr>)
                      (range_map env i storesFromListing))
              else if isStorePage parsedURL then
                (let cleanTitle = extractStoreName title in
                 if cleanTitle \<noteq> [] \<and> collectedCount st < maxTitles
                 then st\<lparr>uniqueTitles := uniqueTitles st @ [cleanTitle],
                         combinedTitles := combinedTitles st @ cleanTitle @ asc ''; '',
                         seenURLs := insert normalizedURL (seenURLs st),
                         collectedCount := collectedCount st + 1,
                         titleKeys := titleKeys st @ [normalizedURL]\<rparr>
                 else st)
              else st)))"

fun results_loop ::
  "'doc env \<Rightarrow> nat \<Rightarrow> nat \<Rightarrow> nat \<Rightarrow> json_item list \<Rightarrow> agg_state \<Rightarrow> agg_state" where
  "results_loop env maxTitles processingLimit i [] st = st"
| "results_loop env maxTitles processingLimit i (item # rest) st =
     (if collectedCount st \<ge> maxTitles \<or> i \<ge> processingLimit then st
      else results_loop env maxTitles processingLimit (Suc i) rest
             (process_item env maxTitles i item st))"

definition maxTitles :: nat where
  "maxTitles = 3"

definition processingLimit :: nat where
  "processingLimit = 50"

text \<open>The state when the loop is left, and what \<open>SearchBrave\<close> returns from it.\<close>

definition SearchBrave_state :: "'doc env \<Rightarrow> json_item list \<Rightarrow> agg_state" where
  "SearchBrave_state env results =
     results_loop env maxTitles processingLimit 0 results initial_state"

definition SearchBrave :: "'doc env \<Rightarrow> json_item list \<Rightarrow> gostring \<times> gostring" where
  "SearchBrave env results =
     (let st = SearchBrave_state env results in
      if length (uniqueTitles st) = 0 then ([], [])
      else (combinedTitles st, Join (uniqueTitles st) (asc ''; '')))"

text \<open>
  \<open>main\<close>, lines 545 to 558: the argument of \<open>analyzeWithGPT\<close>, or \<open>None\<close> when \<open>main\<close>
  returns before the call because nothing was found. (The look-up of an existing row
  between the two is the database's and is left out.)
\<close>

definition scoring_input :: "'doc env \<Rightarrow> json_item list \<Rightarrow> gostring option" where
  "scoring_input env results =
     (let (combinedTitles, topTitle) = SearchBrave env results in
      if topTitle = [] \<or> combinedTitles = [] then None else Some combinedTitles)"

section \<open>Auxiliary notions for the properties\<close>

text \<open>
  The value \<open>url.Parse\<close> returns for \<open>https://host/path\<close>, with no query and no
  fragment.
\<close>

definition https_url :: "gostring \<Rightarrow> gostring \<Rightarrow> URL" where
  "https_url host path =
     \<lparr>Scheme = asc ''https'', Host = host, Path = path, RawQuery = [], Fragment = []\<rparr>"

text \<open>
  A text is fully clean when no cleaning stage finds anything in it: none of the three
  separators, no match of a removal pattern, no stoplist entry, none of the literals of
  the final clean-up, and whitespace that the last stage leaves as it is.
\<close>

definition stage_patterns :: "regex list" where
  "stage_patterns = [reHonorific, reNanashi, reParen, reSquare, reLenticular, reDoubleAngle,
     reToken, reSiteWords, rePopularN, reLunch, reNo, reNSen, reLatest, reTilde, reMatome]"

definition cleanup_literals :: "gostring list" where
  "cleanup_literals = [asc ''...'', [0x3000], [0xFF5C], [0x30FC], [0xFF5E], [0x300E], [0x300F],
     [0x300C], [0x300D], [0x22]]"

definition fully_clean :: "gostring \<Rightarrow> bool" where
  "fully_clean y =
     (\<not> Contains y (asc ''|'') \<and> \<not> Contains y (asc ''-'') \<and> \<not> Contains y (asc ''/'')
      \<and> list_all (\<lambda>r. \<not> MatchString r y) stage_patterns
      \<and> list_all (\<lambda>u. \<not> Contains y u) specificUsers
      \<and> list_all (\<lambda>l. \<not> Contains y l) cleanup_literals
      \<and> ReplaceAllString reSpaces y (asc '' '') = y
      \<and> TrimSpace y = y)"

text \<open>
  Two syntactic readings of a pattern: whether it can match without consuming a rune,
  and the runes a match that consumes something can start with. A rune is a trigger
  when some cleaning stage can start at it: a separator, a first rune of a removal
  pattern or of the whitespace pattern, the first rune of a stoplist entry or of a
  clean-up literal, or a space of \<open>strings.TrimSpace\<close>.
\<close>

fun nullable :: "regex \<Rightarrow> bool" where
  "nullable Eps = True"
| "nullable (Chr c) = False"
| "nullable (Cls neg rs) = False"
| "nullable (Seq a b) = (nullable a \<and> nullable b)"
| "nullable (Alt a b) = (nullable a \<or> nullable b)"
| "nullable (Star a) = True"
| "nullable (StarLazy a) = True"
| "nullable WordB = True"
| "nullable Eol = True"

fun first_runes :: "regex \<Rightarrow> rune \<Rightarrow> bool" where
  "first_runes Eps c = False"
| "first_runes (Chr a) c = (c = a)"
| "first_runes (Cls neg rs) c = (in_ranges rs c \<noteq> neg)"
| "first_runes (Seq a b) c = (first_runes a c \<or> (nullable a \<and> first_runes b c))"
| "first_runes (Alt a b) c = (first_runes a c \<or> first_runes b c)"
| "first_runes (Star a) c = first_runes a c"
| "first_runes (StarLazy a) c = first_runes a c"
| "first_runes WordB c = False"
| "first_runes Eol c = False"

definition trigger :: "rune \<Rightarrow> bool" where
  "trigger c =
     (c \<in> set (asc ''|-/'')
      \<or> list_ex (\<lambda>r. first_runes r c) (reSpaces # stage_patterns)
      \<or> list_ex (\<lambda>l. HasPrefix l [c]) (specificUsers @ cleanup_literals)
      \<or> IsSpace c)"

text \<open>
  Go visits every entry of a map once, in an order it does not specify: this is what
  the properties assume of \<open>range_map\<close>.
\<close>

definition range_is_permutation :: "'doc env \<Rightarrow> bool" where
  "range_is_permutation env = (\<forall>i m. mset (range_map env i m) = mset m)"

text \<open>
  What one result item offers, after steps 2 to 6 of the aggregation algorithm of the
  specification: the mappings it admits, in first-discovery order (for a hub or listing
  page the order of the admitted anchors in the markup), and the seen set after it.
  \<open>discovery_segments\<close> collects them for the items inside the scan budget, with no cap
  on their number; \<open>visit_order f\<close> lists them as a scan visits them when segment \<open>i\<close>
  is iterated in the order \<open>f i\<close>.
\<close>

definition item_entries :: "'doc env \<Rightarrow> json_item \<Rightarrow> gostring set \<Rightarrow> linkmap \<times> gostring set" where
  "item_entries env item seen =
     (case item of
        NonMap \<Rightarrow> ([], seen)
      | Obj None _ \<Rightarrow> ([], seen)
      | Obj (Some title) None \<Rightarrow> ([], seen)
      | Obj (Some title) (Some urlStr) \<Rightarrow>
         (case url_Parse env urlStr of
            None \<Rightarrow> ([], seen)
          | Some parsedURL \<Rightarrow>
             (let key = normalize_url (URL_String parsedURL) in
              if key \<in> seen then ([], seen)
              else if \<not> Contains (Host parsedURL) (asc ''tabelog.com'') then ([], seen)
              else if Contains (Path parsedURL) (asc ''/matome/'')
              then fetchStoreLinksFromMatome env urlStr seen
              else if Contains (Path parsedURL) (asc ''/rstLst/'')
              then fetchLinksFromListingPage env urlStr seen
              else if isStorePage parsedURL then
                (let name = extractStoreName title in
                 if name \<noteq> [] then ([(key, name)], insert key seen) else ([], seen))
              else ([], seen))))"

fun discovery_segments ::
  "'doc env \<Rightarrow> nat \<Rightarrow> nat \<Rightarrow> json_item list \<Rightarrow> gostring set \<Rightarrow> linkmap list" where
  "discovery_segments env limit i [] seen = []"
| "discovery_segments env limit i (item # rest) seen =
     (if i \<ge> limit then []
      else (let (es, seen') = item_entries env item seen
            in es # discovery_segments env limit (Suc i) rest seen'))"

fun visit_order :: "(nat \<Rightarrow> linkmap \<Rightarrow> linkmap) \<Rightarrow> nat \<Rightarrow> linkmap list \<Rightarrow> linkmap" where
  "visit_order f i [] = []"
| "visit_order f i (seg # segs) = f i seg @ visit_order f (Suc i) segs"

text \<open>Invariants used in the proofs: of an extractor's result, and of the loop state.\<close>

definition links_inv :: "gostring set \<Rightarrow> linkmap \<times> gostring set \<Rightarrow> bool" where
  "links_inv seen0 st =
     (distinct (map fst (fst st)) \<and> snd st = seen0 \<union> fst ` set (fst st)
      \<and> fst ` set (fst st) \<inter> seen0 = {} \<and> [] \<notin> snd ` set (fst st))"

definition state_inv :: "nat \<Rightarrow> agg_state \<Rightarrow> bool" where
  "state_inv cap st =
     (combinedTitles st = concat (map (\<lambda>t. t @ asc ''; '') (uniqueTitles st))
      \<and> collectedCount st = length (uniqueTitles st) \<and> collectedCount st \<le> cap)"

section \<open>Example inputs\<close>

text \<open>
  A small world for the concrete runs: a parser for \<open>https://tabelog.com/...\<close> strings,
  absolute links, a hub page \<open>/matome/1/\<close> with four store links in the order
  \<open>13034561\<close> to \<open>13034564\<close> (names U+9EBA U+5C4B, U+9BA8 U+51E6, U+854E U+9EA6,
  U+5929 U+4E3C), a listing page \<open>/tokyo/rstLst/1/\<close> whose first anchor has a text that
  the normalizer rejects, and maps iterated in insertion order (\<open>ex_env\<close>) or in reverse
  (\<open>ex_env_rev\<close>).
\<close>

definition ex_Parse :: "gostring \<Rightarrow> URL option" where
  "ex_Parse s = (if HasPrefix s (asc ''https://tabelog.com/'')
                 then Some (https_url (asc ''tabelog.com'') (drop 19 s)) else None)"

definition ex_hub :: gostring where
  "ex_hub = asc ''https://tabelog.com/matome/1/''"

definition ex_store :: "string \<Rightarrow> gostring" where
  "ex_store ident = asc ''https://tabelog.com/tokyo/A1311/A131105/'' @ asc ident @ asc ''/''"

definition ex_key :: "string \<Rightarrow> gostring" where
  "ex_key ident = asc ''https://tabelog.com/tokyo/A1311/A131105/'' @ asc ident"

definition ex_listing :: gostring where
  "ex_listing = asc ''https://tabelog.com/tokyo/rstLst/1/''"

definition ex_hub_anchors :: "selection list" where
  "ex_hub_anchors = [
     \<lparr>Attr_href = Some (ex_store ''13034561''), Text = [0x9EBA, 0x5C4B]\<rparr>,
     \<lparr>Attr_href = Some (ex_store ''13034562''), Text = [0x9BA8, 0x51E6]\<rparr>,
     \<lparr>Attr_href = Some (ex_store ''13034563''), Text = [0x854E, 0x9EA6]\<rparr>,
     \<lparr>Attr_href = Some (ex_store ''13034564''), Text = [0x5929, 0x4E3C]\<rparr>]"

definition ex_rejected :: selection where
  "ex_rejected = \<lparr>Attr_href = Some (ex_store ''13034561''), Text = asc ''abc''\<rparr>"

definition ex_accepted :: selection where
  "ex_accepted = \<lparr>Attr_href = Some (ex_store ''13034561''), Text = [0x9EBA, 0x5C4B]\<rparr>"

definition ex_listing_anchors :: "selection list" where
  "ex_listing_anchors = [ex_rejected, ex_accepted,
     \<lparr>Attr_href = Some (ex_store ''13034562''), Text = [0x9BA8, 0x51E6]\<rparr>]"

definition ex_env :: "(selection list) env" where
  "ex_env = \<lparr>url_Parse = ex_Parse,
             ResolveReference = (\<lambda>base ref. ref),
             round_trip = (\<lambda>u. if u = ex_hub then Some (asc ''hub'')
                                else if u = ex_listing then Some (asc ''listing'') else None),
             NewDocumentFromReader = (\<lambda>body. if body = asc ''hub'' then Some ex_hub_anchors
                                else if body = asc ''listing'' then Some ex_listing_anchors
                                else None),
             Find = (\<lambda>doc selector. doc),
             range_map = (\<lambda>i m. m)\<rparr>"

definition ex_env_rev :: "(selection list) env" where
  "ex_env_rev = ex_env\<lparr>range_map := (\<lambda>i m. rev m)\<rparr>"

definition ex_missing :: gostring where
  "ex_missing = asc ''https://tabelog.com/matome/404/''"

definition ex_results :: "json_item list" where
  "ex_results = [Obj (Some (asc ''hub title'')) (Some ex_hub)]"

definition ex_mixed :: "json_item list" where
  "ex_mixed = [Obj (Some [0x9EBA, 0x5C4B, 0x20, 0x7C, 0x20, 0x98DF, 0x3079, 0x30ED, 0x30B0])
                   (Some (ex_store ''13034561'')),
               Obj (Some (asc ''listing title'')) (Some ex_listing),
               Obj (Some (asc ''hub title'')) (Some ex_hub)]"

definition ex_direct :: "json_item list" where
  "ex_direct = [Obj (Some [0x9EBA, 0x5C4B, 0x20, 0x7C, 0x20, 0x98DF, 0x3079, 0x30ED, 0x30B0])
                    (Some (ex_store ''13034561''))]"

section \<open>Properties of the URL classifier\<close>

lemma isStorePage_host:
  "isStorePage u \<Longrightarrow> Contains (Host u) (asc ''tabelog.com'')"
  by (simp add: isStorePage_def Let_def split: if_splits)

text \<open>
  C8. The two detail-page URLs \<open>https://tabelog.com/tokyo/A1311/A131105/13034566/\<close> and
  the same without the trailing slash are classified as store pages; the review sub-page
  \<open>.../13034566/review/123/\<close>, the English variant \<open>/en/tokyo/...\<close> and the same detail
  path on the host \<open>example.com\<close> are not.
\<close>

theorem detail_page_shape:
  "URL_String (https_url (asc ''tabelog.com'') (asc ''/tokyo/A1311/A131105/13034566/''))
     = asc ''https://tabelog.com/tokyo/A1311/A131105/13034566/''
   \<and> isStorePage (https_url (asc ''tabelog.com'') (asc ''/tokyo/A1311/A131105/13034566/''))
   \<and> isStorePage (https_url (asc ''tabelog.com'') (asc ''/tokyo/A1311/A131105/13034566''))
   \<and> \<not> isStorePage (https_url (asc ''tabelog.com'')
          (asc ''/tokyo/A1311/A131105/13034566/review/123/''))
   \<and> \<not> isStorePage (https_url (asc ''tabelog.com'') (asc ''/en/tokyo/A1311/A131105/13034566/''))
   \<and> \<not> isStorePage (https_url (asc ''example.com'') (asc ''/tokyo/A1311/A131105/13034566/''))"
  by code_simp

text \<open>
  C5. The claim is that every URL whose host is not \<open>tabelog.com\<close> is rejected. The
  host test is \<open>strings.Contains\<close>, and the store-page pattern is not anchored on the
  left, so \<open>https://nottabelog.com/tokyo/A1311/A131105/13034566/\<close>, on a host that is
  neither \<open>tabelog.com\<close> nor one of its subdomains, is classified as a store page.
\<close>

theorem foreign_host_accepted:
  "Host (https_url (asc ''nottabelog.com'') (asc ''/tokyo/A1311/A131105/13034566/''))
     \<noteq> asc ''tabelog.com''
   \<and> isStorePage (https_url (asc ''nottabelog.com'') (asc ''/tokyo/A1311/A131105/13034566/''))"
  by code_simp

section \<open>Properties of the name normalizer\<close>

text \<open>\<open>Split\<close> never returns the empty list, so its first piece exists.\<close>

lemma split_acc_nonempty: "split_acc acc sep s \<noteq> []"
  by (induction acc sep s rule: split_acc.induct) simp_all

lemma Split_nonempty: "Split s sep \<noteq> []"
  by (simp add: Split_def split_acc_nonempty)

lemma extractStoreName_rejects_iff:
  "extractStoreName t = [] \<longleftrightarrow>
     go_len (clean_title t) < 2 \<or> \<not> MatchString reValid (clean_title t)"
proof -
  have "go_len (clean_title t) < 2" if "clean_title t = []"
    using that by (simp add: go_len_def)
  then show ?thesis
    by (auto simp: extractStoreName_def Let_def)
qed

text \<open>
  C7. The claim is that a cleaned text of fewer than two characters is always rejected.
  The gate compares \<open>len(title)\<close>, a number of bytes: the single ideograph U+9EBA is
  one character and three bytes, it is left as it is by the cleaning stages, and it is
  returned as a name.
\<close>

theorem single_rune_accepted:
  "clean_title [0x9EBA] = [0x9EBA] \<and> length (clean_title [0x9EBA]) < 2
   \<and> go_len (clean_title [0x9EBA]) = 3 \<and> extractStoreName [0x9EBA] = [0x9EBA]"
  by code_simp

lemma replace_from_no_match:
  "\<not> search r (p, s) \<Longrightarrow> replace_from r repl (p, s) = s"
  by (induction s arbitrary: p) auto

lemma ReplaceAllString_no_match:
  "\<not> MatchString r s \<Longrightarrow> ReplaceAllString r s repl = s"
  by (simp add: MatchString_def ReplaceAllString_def replace_from_no_match)

lemma ReplaceAll_absent:
  "\<not> Contains s old \<Longrightarrow> ReplaceAll s old new = s"
  by (induction s) auto

lemma foldl_ReplaceAll_absent:
  "list_all (\<lambda>u. \<not> Contains s u) us \<Longrightarrow> foldl (\<lambda>t user. ReplaceAll t user []) s us = s"
  by (induction us) (auto simp: ReplaceAll_absent)

lemma clean_title_fully_clean:
  assumes "fully_clean y"
  shows "clean_title y = y"
proof -
  have c: "\<not> Contains y (asc ''|'')" "\<not> Contains y (asc ''-'')" "\<not> Contains y (asc ''/'')"
    and p: "list_all (\<lambda>r. \<not> MatchString r y) stage_patterns"
    and u: "list_all (\<lambda>u. \<not> Contains y u) specificUsers"
    and l: "list_all (\<lambda>l. \<not> Contains y l) cleanup_literals"
    and w: "ReplaceAllString reSpaces y (asc '' '') = y" "TrimSpace y = y"
    using assms unfolding fully_clean_def by blast+
  have cut: "cut_at (asc ''|'') y = y" "cut_at (asc ''-'') y = y" "cut_at (asc ''/'') y = y"
    using c by (simp_all add: cut_at_def)
  have re: "ReplaceAllString r y [] = y" if "r \<in> set stage_patterns" for r
    using p that by (simp add: list_all_iff ReplaceAllString_no_match)
  have us: "remove_users y = y"
    using u by (simp add: remove_users_def foldl_ReplaceAll_absent)
  have li: "ReplaceAll y old new = y" if "old \<in> set cleanup_literals" for old new
    using l that by (simp add: list_all_iff ReplaceAll_absent)
  have res:
    "ReplaceAllString reHonorific y [] = y"
    "ReplaceAllString reNanashi y [] = y"
    "ReplaceAllString reParen y [] = y"
    "ReplaceAllString reSquare y [] = y"
    "ReplaceAllString reLenticular y [] = y"
    "ReplaceAllString reDoubleAngle y [] = y"
    "ReplaceAllString reToken y [] = y"
    "ReplaceAllString reSiteWords y [] = y"
    "ReplaceAllString rePopularN y [] = y"
    "ReplaceAllString reLunch y [] = y"
    "ReplaceAllString reNo y [] = y"
    "ReplaceAllString reNSen y [] = y"
    "ReplaceAllString reLatest y [] = y"
    "ReplaceAllString reTilde y [] = y"
    "ReplaceAllString reMatome y [] = y"
    by (rule re, simp add: stage_patterns_def)+
  have lis:
    "ReplaceAll y (asc ''...'') [] = y"
    "ReplaceAll y [0x3000] (asc '' '') = y"
    "ReplaceAll y [0xFF5C] [] = y"
    "ReplaceAll y [0x30FC] [] = y"
    "ReplaceAll y [0xFF5E] [] = y"
    "ReplaceAll y [0x300E] [] = y"
    "ReplaceAll y [0x300F] [] = y"
    "ReplaceAll y [0x300C] [] = y"
    "ReplaceAll y [0x300D] [] = y"
    "ReplaceAll y [0x22] [] = y"
    by (rule li, simp add: cleanup_literals_def)+
  show ?thesis
    unfolding clean_title_def Let_def
    by (simp only: cut res lis us w)
qed

text \<open>
  C6, as amended. Applying the normalizer to its own output returns that output
  whenever the output is fully clean, that is, whenever no stage finds anything in it.
  (The stages run once and in a fixed order, so an output need not be fully clean.)
\<close>

theorem normalizer_idempotent_on_clean:
  "fully_clean (extractStoreName x) \<Longrightarrow>
     extractStoreName (extractStoreName x) = extractStoreName x"
proof -
  assume fc: "fully_clean (extractStoreName x)"
  let ?y = "extractStoreName x"
  have cy: "clean_title ?y = ?y"
    using fc by (rule clean_title_fully_clean)
  show ?thesis
  proof (cases "?y = []")
    case True
    then show ?thesis
      using cy by (simp add: extractStoreName_def[of "[]"] Let_def go_len_def)
  next
    case False
    then have y: "?y = clean_title x"
      and gate: "\<not> (go_len (clean_title x) < 2 \<or> \<not> MatchString reValid (clean_title x))"
      by (auto simp: extractStoreName_def Let_def split: if_splits)
    have "extractStoreName ?y = (if go_len ?y < 2 \<or> \<not> MatchString reValid ?y then [] else ?y)"
      unfolding extractStoreName_def[of ?y] Let_def cy ..
    then show ?thesis
      using gate y by simp
  qed
qed

text \<open>
  The title \<open>U+9EBA U+5C4B | U+98DF U+3079 U+30ED U+30B0\<close> is normalized to the fully
  clean name \<open>U+9EBA U+5C4B\<close>.
\<close>

theorem normalizer_idempotent_on_clean_witness:
  "fully_clean (extractStoreName [0x9EBA, 0x5C4B, 0x20, 0x7C, 0x20, 0x98DF, 0x3079, 0x30ED, 0x30B0])
   \<and> extractStoreName [0x9EBA, 0x5C4B, 0x20, 0x7C, 0x20, 0x98DF, 0x3079, 0x30ED, 0x30B0]
       = [0x9EBA, 0x5C4B]
   \<and> extractStoreName
        (extractStoreName [0x9EBA, 0x5C4B, 0x20, 0x7C, 0x20, 0x98DF, 0x3079, 0x30ED, 0x30B0])
       = extractStoreName [0x9EBA, 0x5C4B, 0x20, 0x7C, 0x20, 0x98DF, 0x3079, 0x30ED, 0x30B0]"
proof -
  have e: "extractStoreName [0x9EBA, 0x5C4B, 0x20, 0x7C, 0x20, 0x98DF, 0x3079, 0x30ED, 0x30B0]
             = [0x9EBA, 0x5C4B]"
    by code_simp
  have f: "fully_clean [0x9EBA, 0x5C4B]"
    by code_simp
  show ?thesis
    using normalizer_idempotent_on_clean
            [of "[0x9EBA, 0x5C4B, 0x20, 0x7C, 0x20, 0x98DF, 0x3079, 0x30ED, 0x30B0]"] e f
    by simp
qed

text \<open>
  C6 as stated fails: \<open>ab...c\<close> is normalized to \<open>abc\<close> (the dots go in the final
  clean-up, after the token pattern has run), and \<open>abc\<close> is a word of three letters,
  which the token pattern removes, so the second application rejects.
\<close>

theorem normalizer_not_idempotent:
  "extractStoreName (asc ''ab...c'') \<noteq> []
   \<and> extractStoreName (extractStoreName (asc ''ab...c'')) \<noteq> extractStoreName (asc ''ab...c'')"
proof -
  have a: "extractStoreName (asc ''ab...c'') = asc ''abc''"
    by code_simp
  have b: "extractStoreName (asc ''abc'') = []"
    by code_simp
  have c: "asc ''abc'' \<noteq> []"
    by (simp add: asc_def)
  show ?thesis
    unfolding a b using c by simp
qed

subsection \<open>Texts without triggers\<close>

text \<open>
  Every pattern handed to \<open>ReplaceAllString\<close> consumes at least one rune when it
  matches, and a match that consumes something starts with one of the pattern's first
  runes. So a text with no trigger rune is fully clean, and the normalizer returns it
  unchanged when it passes the validity gate.
\<close>

lemma matches_length:
  "c' \<in> set (matches r cur) \<Longrightarrow>
     length (snd c') \<le> length (snd cur) \<and> (\<not> nullable r \<longrightarrow> length (snd c') < length (snd cur))"
proof (induction r cur arbitrary: c' rule: matches.induct)
  case (4 a b cur)
  then obtain c1 where c1: "c1 \<in> set (matches a cur)" and c2: "c' \<in> set (matches b c1)"
    by auto
  from "4.IH"(1)[OF c1] "4.IH"(2)[OF c1 c2] show ?case
    by auto
next
  case (5 a b cur)
  then have "c' \<in> set (matches a cur) \<or> c' \<in> set (matches b cur)"
    by simp
  then show ?case
    using "5.IH"(1)[of c'] "5.IH"(2)[of c'] by auto
next
  case (6 a cur)
  show ?case
  proof (cases "c' = cur")
    case True
    then show ?thesis by simp
  next
    case False
    have "c' \<in> set (concat (map (\<lambda>c1. if length (snd c1) < length (snd cur)
                                    then matches (Star a) c1 else []) (matches a cur)))"
      using "6.prems" False by (subst (asm) matches.simps) (simp del: matches.simps)
    then obtain c1 where c1: "c1 \<in> set (matches a cur)"
      and lt: "length (snd c1) < length (snd cur)" and c2: "c' \<in> set (matches (Star a) c1)"
      by (auto simp del: matches.simps split: if_splits)
    from "6.IH"(2)[OF c1 lt c2] lt show ?thesis
      by simp
  qed
next
  case (7 a cur)
  show ?case
  proof (cases "c' = cur")
    case True
    then show ?thesis by simp
  next
    case False
    have "c' \<in> set (concat (map (\<lambda>c1. if length (snd c1) < length (snd cur)
                                    then matches (StarLazy a) c1 else []) (matches a cur)))"
      using "7.prems" False by (subst (asm) matches.simps) (simp del: matches.simps)
    then obtain c1 where c1: "c1 \<in> set (matches a cur)"
      and lt: "length (snd c1) < length (snd cur)" and c2: "c' \<in> set (matches (StarLazy a) c1)"
      by (auto simp del: matches.simps split: if_splits)
    from "7.IH"(2)[OF c1 lt c2] lt show ?thesis
      by simp
  qed
qed (auto split: list.splits if_splits)

lemma patterns_consume:
  "list_all (\<lambda>r. \<not> nullable r) (reSpaces # stage_patterns)"
  by code_simp

lemma matches_same:
  "c' \<in> set (matches r cur) \<Longrightarrow> length (snd c') = length (snd cur) \<Longrightarrow> c' = cur"
proof (induction r cur arbitrary: c' rule: matches.induct)
  case (4 a b cur)
  then obtain c1 where c1: "c1 \<in> set (matches a cur)" and c2: "c' \<in> set (matches b c1)"
    by auto
  have "length (snd c1) \<le> length (snd cur)" "length (snd c') \<le> length (snd c1)"
    using matches_length[OF c1] matches_length[OF c2] by simp_all
  with "4.prems"(2) have e: "length (snd c1) = length (snd cur)" "length (snd c') = length (snd c1)"
    by simp_all
  from "4.IH"(1)[OF c1 e(1)] "4.IH"(2)[OF c1 c2 e(2)] show ?case
    by simp
next
  case (5 a b cur)
  then have "c' \<in> set (matches a cur) \<or> c' \<in> set (matches b cur)"
    by simp
  then show ?case
    using "5.IH"(1)[of c'] "5.IH"(2)[of c'] "5.prems"(2) by auto
next
  case (6 a cur)
  show ?case
  proof (rule ccontr)
    assume False: "c' \<noteq> cur"
    have "c' \<in> set (concat (map (\<lambda>c1. if length (snd c1) < length (snd cur)
                                    then matches (Star a) c1 else []) (matches a cur)))"
      using "6.prems" False by (subst (asm) matches.simps) (simp del: matches.simps)
    then obtain c1 where c1: "c1 \<in> set (matches a cur)"
      and lt: "length (snd c1) < length (snd cur)" and c2: "c' \<in> set (matches (Star a) c1)"
      by (auto simp del: matches.simps split: if_splits)
    from matches_length[OF c2] lt "6.prems"(2) show False
      by simp
  qed
next
  case (7 a cur)
  show ?case
  proof (rule ccontr)
    assume False: "c' \<noteq> cur"
    have "c' \<in> set (concat (map (\<lambda>c1. if length (snd c1) < length (snd cur)
                                    then matches (StarLazy a) c1 else []) (matches a cur)))"
      using "7.prems" False by (subst (asm) matches.simps) (simp del: matches.simps)
    then obtain c1 where c1: "c1 \<in> set (matches a cur)"
      and lt: "length (snd c1) < length (snd cur)" and c2: "c' \<in> set (matches (StarLazy a) c1)"
      by (auto simp del: matches.simps split: if_splits)
    from matches_length[OF c2] lt "7.prems"(2) show False
      by simp
  qed
qed (auto split: list.splits if_splits)

lemma matches_first:
  "c' \<in> set (matches r cur) \<Longrightarrow> length (snd c') < length (snd cur) \<Longrightarrow>
     \<exists>x xs. snd cur = x # xs \<and> first_runes r x"
proof (induction r cur arbitrary: c' rule: matches.induct)
  case (4 a b cur)
  then obtain c1 where c1: "c1 \<in> set (matches a cur)" and c2: "c' \<in> set (matches b c1)"
    by auto
  show ?case
  proof (cases "length (snd c1) < length (snd cur)")
    case True
    from "4.IH"(1)[OF c1 True] show ?thesis
      by auto
  next
    case False
    then have e: "length (snd c1) = length (snd cur)"
      using matches_length[OF c1] by simp
    then have same: "c1 = cur"
      using matches_same[OF c1] by simp
    have na: "nullable a"
      using matches_length[OF c1] e by auto
    have "length (snd c') < length (snd c1)"
      using "4.prems"(2) e by simp
    from "4.IH"(2)[OF c1 c2 this] na same show ?thesis
      by auto
  qed
next
  case (5 a b cur)
  then have "c' \<in> set (matches a cur) \<or> c' \<in> set (matches b cur)"
    by simp
  then show ?case
    using "5.IH"(1)[of c'] "5.IH"(2)[of c'] "5.prems"(2) by auto
next
  case (6 a cur)
  have False: "c' \<noteq> cur"
    using "6.prems"(2) by auto
  have "c' \<in> set (concat (map (\<lambda>c1. if length (snd c1) < length (snd cur)
                                  then matches (Star a) c1 else []) (matches a cur)))"
    using "6.prems" False by (subst (asm) matches.simps) (simp del: matches.simps)
  then obtain c1 where c1: "c1 \<in> set (matches a cur)"
    and lt: "length (snd c1) < length (snd cur)"
    by (auto simp del: matches.simps split: if_splits)
  from "6.IH"(1)[OF c1 lt] show ?case
    by simp
next
  case (7 a cur)
  have False: "c' \<noteq> cur"
    using "7.prems"(2) by auto
  have "c' \<in> set (concat (map (\<lambda>c1. if length (snd c1) < length (snd cur)
                                  then matches (StarLazy a) c1 else []) (matches a cur)))"
    using "7.prems" False by (subst (asm) matches.simps) (simp del: matches.simps)
  then obtain c1 where c1: "c1 \<in> set (matches a cur)"
    and lt: "length (snd c1) < length (snd cur)"
    by (auto simp del: matches.simps split: if_splits)
  from "7.IH"(1)[OF c1 lt] show ?case
    by simp
qed (auto split: list.splits if_splits)

lemma search_needs_first:
  assumes "\<not> nullable r" and "list_all (\<lambda>c. \<not> first_runes r c) s"
  shows "\<not> search r (p, s)"
  using assms(2)
proof (induction s arbitrary: p)
  case Nil
  have "matches r (p, []) = []"
  proof (rule ccontr)
    assume "matches r (p, []) \<noteq> []"
    then obtain c' where "c' \<in> set (matches r (p, []))"
      using hd_in_set by blast
    from matches_length[OF this] assms(1) show False
      by simp
  qed
  then show ?case by (simp del: matches.simps)
next
  case (Cons x xs)
  have "matches r (p, x # xs) = []"
  proof (rule ccontr)
    assume "matches r (p, x # xs) \<noteq> []"
    then obtain c' where c: "c' \<in> set (matches r (p, x # xs))"
      using hd_in_set by blast
    from matches_length[OF c] assms(1) have "length (snd c') < length (snd (p, x # xs))"
      by blast
    from matches_first[OF c this] Cons.prems show False
      by simp
  qed
  then show ?case
    using Cons by (simp del: matches.simps)
qed

lemma HasPrefix_first: "HasPrefix (x # xs) lit \<Longrightarrow> lit \<noteq> [] \<Longrightarrow> HasPrefix lit [x]"
  by (cases lit) auto

lemma Contains_needs_first:
  "lit \<noteq> [] \<Longrightarrow> list_all (\<lambda>c. \<not> HasPrefix lit [c]) s \<Longrightarrow> \<not> Contains s lit"
  by (induction s) (auto dest: HasPrefix_first)

lemma literals_nonempty: "list_all (\<lambda>l. l \<noteq> []) (specificUsers @ cleanup_literals)"
  by code_simp

lemma TrimSpace_no_space: "list_all (\<lambda>c. \<not> IsSpace c) s \<Longrightarrow> TrimSpace s = s"
proof -
  assume a: "list_all (\<lambda>c. \<not> IsSpace c) s"
  have d: "dropWhile IsSpace xs = xs" if "list_all (\<lambda>c. \<not> IsSpace c) xs" for xs
    using that by (cases xs) simp_all
  have "list_all (\<lambda>c. \<not> IsSpace c) (rev s)"
    using a by (simp add: list_all_iff)
  then show ?thesis
    using a by (simp add: TrimSpace_def d)
qed

lemma untriggered_fully_clean:
  assumes "list_all (\<lambda>c. \<not> trigger c) y"
  shows "fully_clean y"
proof -
  have t: "\<not> trigger c" if "c \<in> set y" for c
    using assms that by (simp add: list_all_iff)
  have seps: "asc ''|-/'' = [0x7C, 0x2D, 0x2F]" "asc ''|'' = [0x7C]" "asc ''-'' = [0x2D]"
    "asc ''/'' = [0x2F]"
    by code_simp+
  have sep: "\<not> Contains y [s]" if "s \<in> set (asc ''|-/'')" for s
  proof (rule Contains_needs_first)
    show "[s] \<noteq> []" by simp
    show "list_all (\<lambda>c. \<not> HasPrefix [s] [c]) y"
      using t that by (auto simp: list_all_iff trigger_def)
  qed
  have pat: "\<not> MatchString r y" if "r \<in> set (reSpaces # stage_patterns)" for r
  proof -
    have n: "\<not> nullable r"
      using patterns_consume that by (simp only: list_all_iff) blast
    have "list_all (\<lambda>c. \<not> first_runes r c) y"
      using t that by (auto simp: list_all_iff list_ex_iff trigger_def simp del: first_runes.simps)
    from search_needs_first[OF n this] show ?thesis
      by (simp add: MatchString_def)
  qed
  have lit: "\<not> Contains y l" if "l \<in> set (specificUsers @ cleanup_literals)" for l
  proof (rule Contains_needs_first)
    show "l \<noteq> []"
      using literals_nonempty that by (simp only: list_all_iff) blast
    show "list_all (\<lambda>c. \<not> HasPrefix l [c]) y"
      using t that by (auto simp: list_all_iff list_ex_iff trigger_def)
  qed
  have sp: "list_all (\<lambda>c. \<not> IsSpace c) y"
    using t by (auto simp: list_all_iff trigger_def)
  have "\<not> Contains y (asc ''|'')" "\<not> Contains y (asc ''-'')" "\<not> Contains y (asc ''/'')"
    unfolding seps(2-4) by (rule sep, simp add: seps(1))+
  moreover have "list_all (\<lambda>r. \<not> MatchString r y) stage_patterns"
    using pat by (simp add: list_all_iff)
  moreover have "list_all (\<lambda>u. \<not> Contains y u) specificUsers"
    "list_all (\<lambda>l. \<not> Contains y l) cleanup_literals"
    using lit by (simp_all add: list_all_iff)
  moreover have "ReplaceAllString reSpaces y (asc '' '') = y"
    by (rule ReplaceAllString_no_match) (rule pat, simp)
  moreover have "TrimSpace y = y"
    using sp by (rule TrimSpace_no_space)
  ultimately show ?thesis
    unfolding fully_clean_def by blast
qed

lemma untriggered_example: "list_all (\<lambda>c. \<not> trigger c) [0x9EBA, 0x5C4B]"
  by code_simp

lemma extractStoreName_untriggered:
  assumes "list_all (\<lambda>c. \<not> trigger c) y"
  shows "extractStoreName y = (if go_len y < 2 \<or> \<not> MatchString reValid y then [] else y)"
  using clean_title_fully_clean[OF untriggered_fully_clean[OF assms]]
  by (simp add: extractStoreName_def Let_def)

section \<open>Properties of the link extractors and the aggregator\<close>

lemma foldl_append_title:
  "foldl (append_title cap) st kvs =
     st\<lparr>uniqueTitles := uniqueTitles st @ map snd (take (cap - collectedCount st) kvs),
        combinedTitles := combinedTitles st
           @ concat (map (\<lambda>kv. snd kv @ asc ''; '') (take (cap - collectedCount st) kvs)),
        collectedCount := collectedCount st + length (take (cap - collectedCount st) kvs),
        titleKeys := titleKeys st @ map fst (take (cap - collectedCount st) kvs)\<rparr>"
proof (induction kvs arbitrary: st)
  case Nil
  then show ?case by simp
next
  case (Cons kv kvs)
  show ?case
  proof (cases "collectedCount st < cap")
    case True
    then have d: "cap - collectedCount st = Suc (cap - Suc (collectedCount st))"
      by simp
    have a: "append_title cap st kv =
               st\<lparr>uniqueTitles := uniqueTitles st @ [snd kv],
                  combinedTitles := combinedTitles st @ snd kv @ asc ''; '',
                  collectedCount := collectedCount st + 1,
                  titleKeys := titleKeys st @ [fst kv]\<rparr>"
      using True by (simp add: append_title_def)
    show ?thesis
      by (simp add: Cons.IH a d)
  next
    case False
    then have a: "append_title cap st kv = st"
      by (simp add: append_title_def)
    from False have z: "cap - collectedCount st = 0"
      by simp
    show ?thesis
      by (simp add: a Cons.IH z)
  qed
qed

lemma range_singleton:
  assumes "range_is_permutation env"
  shows "range_map env i [x] = [x]" and "range_map env i [] = []"
proof -
  have "mset (range_map env i [x]) = mset [x]"
    using assms by (simp add: range_is_permutation_def)
  then show "range_map env i [x] = [x]"
    by (metis mset.simps(1) mset_single_iff_right mset.simps(2) add_mset_eq_single mset_zero_iff_right)
  have "mset (range_map env i []) = mset []"
    using assms unfolding range_is_permutation_def by blast
  then show "range_map env i [] = []"
    by simp
qed

lemma process_item_entries:
  assumes "range_is_permutation env" and "collectedCount st < cap"
  shows "process_item env cap i item st =
           foldl (append_title cap)
             (st\<lparr>seenURLs := snd (item_entries env item (seenURLs st))\<rparr>)
             (range_map env i (fst (item_entries env item (seenURLs st))))"
  using assms(2)
  by (auto simp: process_item_def item_entries_def Let_def range_singleton[OF assms(1)]
        append_title_def
      split: json_item.splits option.splits prod.splits)

lemma links_inv_start: "links_inv seen ([], seen)"
  by (simp add: links_inv_def)

lemma extract_anchor_inv:
  assumes "links_inv seen0 st"
  shows "links_inv seen0 (extract_anchor env baseURL st s)"
proof -
  obtain m seen where st: "st = (m, seen)"
    by (cases st)
  have new: "map_set m k v = m @ [(k, v)]" if "k \<notin> seen" for k v
    using assms that by (auto simp: links_inv_def st map_set_def)
  show ?thesis
    using assms
    by (auto simp: extract_anchor_def Let_def st new links_inv_def split: option.splits)
qed

lemma foldl_extract_anchor_inv:
  "links_inv seen0 st \<Longrightarrow> links_inv seen0 (foldl (extract_anchor env baseURL) st anchors)"
  by (induction anchors arbitrary: st) (simp_all add: extract_anchor_inv)

lemma fetch_links_inv: "links_inv seen (fetch_links selector env urlStr seen)"
  by (auto simp: fetch_links_def links_inv_start foldl_extract_anchor_inv split: option.splits)

lemma item_entries_inv: "links_inv seen (item_entries env item seen)"
proof -
  have direct: "links_inv seen ([(k, v)], insert k seen)" if "k \<notin> seen" "v \<noteq> []" for k v
    using that by (auto simp: links_inv_def)
  show ?thesis
    by (auto simp: item_entries_def Let_def links_inv_start fetch_links_inv direct
          fetchStoreLinksFromMatome_def fetchLinksFromListingPage_def
        split: json_item.splits option.splits)
qed

lemma discovery_segments_inv:
  "distinct (map fst (concat (discovery_segments env limit i items seen)))
   \<and> fst ` set (concat (discovery_segments env limit i items seen)) \<inter> seen = {}
   \<and> [] \<notin> snd ` set (concat (discovery_segments env limit i items seen))"
proof (induction items arbitrary: i seen)
  case Nil
  then show ?case by simp
next
  case (Cons item rest)
  show ?case
  proof (cases "i \<ge> limit")
    case True
    then show ?thesis by simp
  next
    case False
    obtain es seen' where e: "item_entries env item seen = (es, seen')"
      by (cases "item_entries env item seen")
    have inv: "links_inv seen (es, seen')"
      using item_entries_inv[of seen env item] by (simp add: e)
    define R where "R = concat (discovery_segments env limit (Suc i) rest seen')"
    have ih: "distinct (map fst R)" "fst ` set R \<inter> seen' = {}" "[] \<notin> snd ` set R"
      unfolding R_def using Cons.IH[of "Suc i" seen'] by blast+
    have seg: "concat (discovery_segments env limit i (item # rest) seen) = es @ R"
      using False by (simp add: e R_def)
    from inv have d: "distinct (map fst es)" and s: "seen' = seen \<union> fst ` set es"
      and n: "fst ` set es \<inter> seen = {}" and ne: "[] \<notin> snd ` set es"
      by (simp_all add: links_inv_def)
    have x: "fst ` set es \<inter> fst ` set R = {}" and y: "fst ` set R \<inter> seen = {}"
      using ih(2) unfolding s by blast+
    have "distinct (map fst (es @ R))"
      using d ih(1) x by simp
    moreover have "fst ` set (es @ R) \<inter> seen = {}"
      using n y by (simp add: image_Un Int_Un_distrib2)
    moreover have "[] \<notin> snd ` set (es @ R)"
      using ne ih(3) by (simp add: image_Un)
    ultimately show ?thesis
      unfolding seg by blast
  qed
qed

lemma visit_order_mset:
  "\<forall>i m. mset (f i m) = mset m \<Longrightarrow> mset (visit_order f i segs) = mset (concat segs)"
  by (induction segs arbitrary: i) simp_all

lemma take_cap_append:
  "length a \<le> cap \<Longrightarrow>
     take cap ((a @ take (cap - length a) n) @ r) = take cap (a @ n @ r)"
  by (simp add: min_def)

lemma results_loop_entries:
  assumes P: "range_is_permutation env"
    and "collectedCount st = length (uniqueTitles st)"
    and "length (titleKeys st) = length (uniqueTitles st)"
    and "collectedCount st \<le> cap"
  shows "uniqueTitles (results_loop env cap limit i items st)
           = take cap (uniqueTitles st
               @ map snd (visit_order (range_map env) i
                   (discovery_segments env limit i items (seenURLs st))))
       \<and> titleKeys (results_loop env cap limit i items st)
           = take cap (titleKeys st
               @ map fst (visit_order (range_map env) i
                   (discovery_segments env limit i items (seenURLs st))))"
  using assms(2-)
proof (induction items arbitrary: i st)
  case Nil
  then show ?case by simp
next
  case (Cons item rest)
  show ?case
  proof (cases "collectedCount st \<ge> cap \<or> i \<ge> limit")
    case True
    then show ?thesis
      using Cons.prems by auto
  next
    case False
    then have lt: "collectedCount st < cap" and il: "\<not> i \<ge> limit"
      by simp_all
    obtain es seen' where e: "item_entries env item (seenURLs st) = (es, seen')"
      by (cases "item_entries env item (seenURLs st)")
    let ?R = "range_map env i es"
    let ?k = "cap - collectedCount st"
    define st' where "st' = process_item env cap i item st"
    have st': "st' = foldl (append_title cap) (st\<lparr>seenURLs := seen'\<rparr>) ?R"
      unfolding st'_def using process_item_entries[OF P lt, of i item] by (simp add: e)
    have t: "uniqueTitles st' = uniqueTitles st @ take ?k (map snd ?R)"
      and k: "titleKeys st' = titleKeys st @ take ?k (map fst ?R)"
      and c: "collectedCount st' = collectedCount st + length (take ?k ?R)"
      and s: "seenURLs st' = seen'"
      unfolding st' foldl_append_title by (simp_all add: take_map)
    have p1: "collectedCount st' = length (uniqueTitles st')"
      using Cons.prems(1) by (simp add: t c)
    have p2: "length (titleKeys st') = length (uniqueTitles st')"
      using Cons.prems(2) by (simp add: t k)
    have p3: "collectedCount st' \<le> cap"
      using lt by (simp add: c)
    let ?V = "visit_order (range_map env) (Suc i) (discovery_segments env limit (Suc i) rest seen')"
    have ih: "uniqueTitles (results_loop env cap limit (Suc i) rest st')
                = take cap (uniqueTitles st' @ map snd ?V)"
      "titleKeys (results_loop env cap limit (Suc i) rest st')
                = take cap (titleKeys st' @ map fst ?V)"
      using Cons.IH[OF p1 p2 p3, of "Suc i"] by (simp_all add: s)
    have loop: "results_loop env cap limit i (item # rest) st
                  = results_loop env cap limit (Suc i) rest st'"
      using False by (simp add: st'_def)
    have vis: "visit_order (range_map env) i (discovery_segments env limit i (item # rest) (seenURLs st))
                 = ?R @ ?V"
      using il by (simp add: e)
    have la: "length (uniqueTitles st) \<le> cap" "length (titleKeys st) \<le> cap"
      using Cons.prems by simp_all
    have kt: "?k = cap - length (uniqueTitles st)" "?k = cap - length (titleKeys st)"
      using Cons.prems by simp_all
    have "take cap ((uniqueTitles st @ take ?k (map snd ?R)) @ map snd ?V)
            = take cap (uniqueTitles st @ map snd ?R @ map snd ?V)"
      unfolding kt(1) by (rule take_cap_append[OF la(1)])
    moreover have "take cap ((titleKeys st @ take ?k (map fst ?R)) @ map fst ?V)
            = take cap (titleKeys st @ map fst ?R @ map fst ?V)"
      unfolding kt(2) by (rule take_cap_append[OF la(2)])
    ultimately show ?thesis
      unfolding loop vis ih t k by simp
  qed
qed

lemma extract_anchor_range_map:
  "extract_anchor (env\<lparr>range_map := f\<rparr>) baseURL = extract_anchor env baseURL"
  by (rule ext)+ (simp add: extract_anchor_def Let_def cong: option.case_cong if_cong)

lemma fetch_links_range_map:
  "fetch_links selector (env\<lparr>range_map := f\<rparr>) urlStr seen = fetch_links selector env urlStr seen"
  by (simp add: fetch_links_def http_Get_def extract_anchor_range_map cong: option.case_cong)

lemma item_entries_range_map [simp]:
  "item_entries (env\<lparr>range_map := f\<rparr>) item seen = item_entries env item seen"
  by (simp add: item_entries_def fetchStoreLinksFromMatome_def fetchLinksFromListingPage_def
      fetch_links_range_map Let_def cong: json_item.case_cong option.case_cong if_cong)

lemma discovery_segments_range_map [simp]:
  "discovery_segments (env\<lparr>range_map := f\<rparr>) limit i items seen
     = discovery_segments env limit i items seen"
  by (induction items arbitrary: i seen) (simp_all split: prod.splits)

lemma visit_order_insertion: "visit_order (\<lambda>i m. m) i segs = concat segs"
  by (induction segs arbitrary: i) simp_all

lemma SearchBrave_state_entries:
  assumes "range_is_permutation env"
  shows "uniqueTitles (SearchBrave_state env results)
           = take maxTitles (map snd (visit_order (range_map env) 0
               (discovery_segments env processingLimit 0 results {})))"
    and "titleKeys (SearchBrave_state env results)
           = take maxTitles (map fst (visit_order (range_map env) 0
               (discovery_segments env processingLimit 0 results {})))"
  using results_loop_entries[OF assms, of initial_state maxTitles processingLimit 0 results]
  by (simp_all add: SearchBrave_state_def initial_state_def)

text \<open>
  C1, as amended. For a fixed input the sequence of names is fixed once the order in
  which each extracted map is iterated is fixed: with \<open>f\<close> any such order, the names
  are the first \<open>maxTitles\<close> of the discovered candidates, result items in scan order
  and the candidates of one hub or listing page in the order \<open>f\<close> visits them, a
  permutation of the page's admitted anchors. When every map is iterated in insertion
  order, the sequence is in first-discovery order.
\<close>

theorem names_follow_iteration_order:
  assumes "\<forall>i m. mset (f i m) = mset m"
  shows "uniqueTitles (SearchBrave_state (env\<lparr>range_map := f\<rparr>) results)
           = take maxTitles (map snd (visit_order f 0
               (discovery_segments env processingLimit 0 results {})))
       \<and> uniqueTitles (SearchBrave_state (env\<lparr>range_map := \<lambda>i m. m\<rparr>) results)
           = take maxTitles (map snd (concat
               (discovery_segments env processingLimit 0 results {})))"
proof -
  have p: "range_is_permutation (env\<lparr>range_map := f\<rparr>)"
    using assms by (simp add: range_is_permutation_def)
  have q: "range_is_permutation (env\<lparr>range_map := \<lambda>i m. m\<rparr>)"
    by (simp add: range_is_permutation_def)
  show ?thesis
    using SearchBrave_state_entries(1)[OF p, of results]
      SearchBrave_state_entries(1)[OF q, of results]
    by (simp add: visit_order_insertion)
qed

lemma foldl_append_title_inv:
  assumes "state_inv cap st"
  shows "state_inv cap (foldl (append_title cap) st kvs)"
  using assms unfolding foldl_append_title state_inv_def
  by (auto simp: map_concat comp_def min_def)

lemma process_item_inv:
  assumes "state_inv cap st"
  shows "state_inv cap (process_item env cap i item st)"
proof -
  have upd: "state_inv cap (st\<lparr>seenURLs := s\<rparr>)" for s
    using assms by (simp add: state_inv_def)
  have direct: "state_inv cap (st\<lparr>uniqueTitles := uniqueTitles st @ [t],
                  combinedTitles := combinedTitles st @ t @ asc ''; '',
                  seenURLs := s, collectedCount := Suc (collectedCount st),
                  titleKeys := titleKeys st @ [k]\<rparr>)"
    if "collectedCount st < cap" for t s k
    using assms that by (simp add: state_inv_def)
  show ?thesis
    using assms
    by (auto simp: process_item_def Let_def foldl_append_title_inv upd direct
        split: json_item.splits option.splits prod.splits)
qed

lemma results_loop_inv:
  "state_inv cap st \<Longrightarrow> state_inv cap (results_loop env cap limit i items st)"
  by (induction items arbitrary: i st) (simp_all add: process_item_inv)

lemma SearchBrave_state_inv: "state_inv maxTitles (SearchBrave_state env results)"
  unfolding SearchBrave_state_def
  by (rule results_loop_inv) (simp add: state_inv_def initial_state_def)

lemma visit_order_perm:
  assumes "range_is_permutation env"
  shows "mset (visit_order (range_map env) i segs) = mset (concat segs)"
  using assms by (simp add: visit_order_mset range_is_permutation_def)

text \<open>
  C2, as amended. At most three names are emitted. When the scan discovers at least
  four candidates, exactly three are emitted, and they are the first three in the order
  the aggregator visits the candidates: result items in scan order, the mappings of one
  hub or listing page in the map's iteration order.
\<close>

theorem cap_enforcement:
  "length (uniqueTitles (SearchBrave_state env results)) \<le> 3
   \<and> (range_is_permutation env
        \<longrightarrow> 4 \<le> length (concat (discovery_segments env processingLimit 0 results {}))
        \<longrightarrow> length (uniqueTitles (SearchBrave_state env results)) = 3
            \<and> uniqueTitles (SearchBrave_state env results)
                = take 3 (map snd (visit_order (range_map env) 0
                    (discovery_segments env processingLimit 0 results {}))))"
proof -
  have a: "length (uniqueTitles (SearchBrave_state env results)) \<le> 3"
    using SearchBrave_state_inv[of env results] by (simp add: state_inv_def maxTitles_def)
  have b: "length (uniqueTitles (SearchBrave_state env results)) = 3
           \<and> uniqueTitles (SearchBrave_state env results)
                = take 3 (map snd (visit_order (range_map env) 0
                    (discovery_segments env processingLimit 0 results {})))"
    if p: "range_is_permutation env"
      and n: "4 \<le> length (concat (discovery_segments env processingLimit 0 results {}))"
  proof -
    have "length (visit_order (range_map env) 0 (discovery_segments env processingLimit 0 results {}))
            = length (concat (discovery_segments env processingLimit 0 results {}))"
      using visit_order_perm[OF p] by (rule mset_eq_length)
    then show ?thesis
      using n SearchBrave_state_entries(1)[OF p, of results] by (simp add: maxTitles_def)
  qed
  show ?thesis
    using a b by blast
qed

text \<open>
  C3. Every emitted name was appended under its own CandidateKey: the keys recorded for
  the elements of \<open>uniqueTitles\<close> are pairwise distinct, whichever of the three branches
  admitted them, and each pair of key and name is one of the discovered mappings.
\<close>

theorem one_entry_per_key:
  assumes "range_is_permutation env"
  shows "distinct (titleKeys (SearchBrave_state env results))
       \<and> length (titleKeys (SearchBrave_state env results))
           = length (uniqueTitles (SearchBrave_state env results))
       \<and> set (zip (titleKeys (SearchBrave_state env results))
                   (uniqueTitles (SearchBrave_state env results)))
           \<subseteq> set (concat (discovery_segments env processingLimit 0 results {}))"
proof -
  define D where "D = concat (discovery_segments env processingLimit 0 results {})"
  define V where "V = visit_order (range_map env) 0
                        (discovery_segments env processingLimit 0 results {})"
  have m: "mset V = mset D"
    unfolding V_def D_def by (rule visit_order_perm[OF assms])
  have t: "uniqueTitles (SearchBrave_state env results) = take maxTitles (map snd V)"
    and k: "titleKeys (SearchBrave_state env results) = take maxTitles (map fst V)"
    unfolding V_def using SearchBrave_state_entries[OF assms, of results] by simp_all
  have "distinct (map fst D)"
    unfolding D_def using discovery_segments_inv[of env processingLimit 0 results "{}"] by blast
  moreover have "mset (map fst V) = mset (map fst D)"
    using m by (metis mset_map)
  ultimately have "distinct (map fst V)"
    by (metis mset_eq_imp_distinct_iff)
  then have d: "distinct (take maxTitles (map fst V))"
    by (rule distinct_take)
  have z: "zip (take maxTitles (map fst V)) (take maxTitles (map snd V)) = take maxTitles V"
    by (simp add: take_zip[symmetric] zip_map_fst_snd)
  have "set (take maxTitles V) \<subseteq> set D"
    using set_take_subset[of maxTitles V] mset_eq_setD[OF m] by simp
  then show ?thesis
    unfolding t k z D_def[symmetric] using d by simp
qed

lemma concat_sep_Join:
  "xs \<noteq> [] \<Longrightarrow> concat (map (\<lambda>t. t @ sep) xs) = Join xs sep @ sep"
  by (induction xs sep rule: Join.induct) simp_all

lemma Join_nonempty:
  "xs \<noteq> [] \<Longrightarrow> [] \<notin> set xs \<Longrightarrow> Join xs sep \<noteq> []"
  by (induction xs sep rule: Join.induct) simp_all

text \<open>
  C4, as amended. When at least one name was collected, \<open>analyzeWithGPT\<close> is called,
  and its argument is the names joined with \<open>"; "\<close> followed by one more \<open>"; "\<close>:
  the loop appends the separator after every name. It is determined by
  \<open>uniqueTitles\<close>.
\<close>

theorem scoring_input_joined:
  assumes "range_is_permutation env"
    and "uniqueTitles (SearchBrave_state env results) \<noteq> []"
  shows "scoring_input env results
           = Some (Join (uniqueTitles (SearchBrave_state env results)) (asc ''; '') @ asc ''; '')"
proof -
  define D where "D = concat (discovery_segments env processingLimit 0 results {})"
  define V where "V = visit_order (range_map env) 0
                        (discovery_segments env processingLimit 0 results {})"
  define T where "T = uniqueTitles (SearchBrave_state env results)"
  have m: "mset V = mset D"
    unfolding V_def D_def by (rule visit_order_perm[OF assms(1)])
  have t: "T = take maxTitles (map snd V)"
    unfolding V_def T_def using SearchBrave_state_entries(1)[OF assms(1), of results] by simp
  have "[] \<notin> snd ` set D"
    unfolding D_def using discovery_segments_inv[of env processingLimit 0 results "{}"] by blast
  then have "[] \<notin> snd ` set V"
    using mset_eq_setD[OF m] by simp
  then have ne: "[] \<notin> set T"
    unfolding t using set_take_subset[of maxTitles "map snd V"] by auto
  have c: "combinedTitles (SearchBrave_state env results) = Join T (asc ''; '') @ asc ''; ''"
    using SearchBrave_state_inv[of env results] assms(2)
    by (simp add: state_inv_def T_def concat_sep_Join)
  have j: "Join T (asc ''; '') \<noteq> []"
    using assms(2) ne unfolding T_def[symmetric] by (rule Join_nonempty)
  show ?thesis
    using assms(2) c j
    by (simp add: scoring_input_def SearchBrave_def Let_def T_def[symmetric])
qed

text \<open>
  C9. For an anchor whose resolved URL is a store page and whose key is not yet seen:
  when the normalizer rejects its text, the extractor's state (the links and the seen
  set) is unchanged; when it accepts, the key is added to the seen set and the mapping
  to the links; and after a rejected anchor, a later anchor with the same link and an
  accepted text is admitted.
\<close>

theorem rejected_anchor_not_marked:
  assumes "Attr_href s = Some href" and "url_Parse env href = Some parsed"
    and "isStorePage (ResolveReference env baseURL parsed)"
    and "key = normalize_url (URL_String (ResolveReference env baseURL parsed))"
    and "key \<notin> seen"
  shows "(extractStoreName (TrimSpace (Text s)) = []
            \<longrightarrow> extract_anchor env baseURL (m, seen) s = (m, seen))
       \<and> (extractStoreName (TrimSpace (Text s)) \<noteq> []
            \<longrightarrow> extract_anchor env baseURL (m, seen) s
                 = (map_set m key (extractStoreName (TrimSpace (Text s))), insert key seen))
       \<and> (extractStoreName (TrimSpace (Text s)) = []
            \<longrightarrow> Attr_href s' = Some href
            \<longrightarrow> extractStoreName (TrimSpace (Text s')) \<noteq> []
            \<longrightarrow> foldl (extract_anchor env baseURL) (m, seen) [s, s']
                 = (map_set m key (extractStoreName (TrimSpace (Text s'))), insert key seen))"
  using assms by (simp add: extract_anchor_def Let_def)

text \<open>
  C10. When the page fetch fails, or the fetched body fails to parse, both extractors
  return no links and the seen set they were given.
\<close>

theorem page_failure_atomic:
  assumes "http_Get env urlStr = None
           \<or> (\<exists>body. http_Get env urlStr = Some body \<and> NewDocumentFromReader env body = None)"
  shows "fetchStoreLinksFromMatome env urlStr seen = ([], seen)
       \<and> fetchLinksFromListingPage env urlStr seen = ([], seen)"
  using assms
  by (auto simp: fetchStoreLinksFromMatome_def fetchLinksFromListingPage_def fetch_links_def)

subsection \<open>Concrete runs\<close>

lemma ex_env_permutation: "range_is_permutation ex_env"
  by (simp add: range_is_permutation_def ex_env_def)

lemma ex_env_rev_permutation: "range_is_permutation ex_env_rev"
  by (simp add: range_is_permutation_def ex_env_rev_def)

text \<open>
  The hub page of the example, iterated in reverse and in insertion order.
\<close>

theorem names_follow_iteration_order_witness:
  "(\<forall>(i::nat) (m::linkmap). mset (rev m) = mset m)
   \<and> uniqueTitles (SearchBrave_state (ex_env\<lparr>range_map := \<lambda>i m. rev m\<rparr>) ex_results)
       = [[0x5929, 0x4E3C], [0x854E, 0x9EA6], [0x9BA8, 0x51E6]]
   \<and> uniqueTitles (SearchBrave_state (ex_env\<lparr>range_map := \<lambda>i m. m\<rparr>) ex_results)
       = [[0x9EBA, 0x5C4B], [0x9BA8, 0x51E6], [0x854E, 0x9EA6]]"
proof -
  have h: "\<forall>(i::nat) (m::linkmap). mset (rev m) = mset m"
    by simp
  have a: "take maxTitles (map snd (visit_order (\<lambda>i m. rev m) 0
             (discovery_segments ex_env processingLimit 0 ex_results {})))
           = [[0x5929, 0x4E3C], [0x854E, 0x9EA6], [0x9BA8, 0x51E6]]"
    by code_simp
  have b: "take maxTitles (map snd (concat
             (discovery_segments ex_env processingLimit 0 ex_results {})))
           = [[0x9EBA, 0x5C4B], [0x9BA8, 0x51E6], [0x854E, 0x9EA6]]"
    by code_simp
  show ?thesis
    using names_follow_iteration_order[OF h, of ex_env ex_results] h unfolding a b by blast
qed

text \<open>
  C1 as stated fails: the two environments return the same search results and the same
  pages and differ only in the order in which the extracted map is iterated, and the
  runs emit different sequences; the second is not the order of the anchors in the page.
\<close>

theorem order_depends_on_map_iteration:
  "range_is_permutation ex_env \<and> range_is_permutation ex_env_rev
   \<and> ex_env_rev = ex_env\<lparr>range_map := \<lambda>i m. rev m\<rparr>
   \<and> uniqueTitles (SearchBrave_state ex_env ex_results)
       = [[0x9EBA, 0x5C4B], [0x9BA8, 0x51E6], [0x854E, 0x9EA6]]
   \<and> uniqueTitles (SearchBrave_state ex_env_rev ex_results)
       = [[0x5929, 0x4E3C], [0x854E, 0x9EA6], [0x9BA8, 0x51E6]]"
proof -
  have a: "uniqueTitles (SearchBrave_state ex_env ex_results)
       = [[0x9EBA, 0x5C4B], [0x9BA8, 0x51E6], [0x854E, 0x9EA6]]"
    by code_simp
  have b: "uniqueTitles (SearchBrave_state ex_env_rev ex_results)
       = [[0x5929, 0x4E3C], [0x854E, 0x9EA6], [0x9BA8, 0x51E6]]"
    by code_simp
  show ?thesis
    using a b ex_env_permutation ex_env_rev_permutation by (simp add: ex_env_rev_def)
qed

theorem cap_enforcement_witness:
  "range_is_permutation ex_env_rev
   \<and> 4 \<le> length (concat (discovery_segments ex_env_rev processingLimit 0 ex_results {}))
   \<and> length (uniqueTitles (SearchBrave_state ex_env_rev ex_results)) = 3
   \<and> uniqueTitles (SearchBrave_state ex_env_rev ex_results)
       = take 3 (map snd (visit_order (range_map ex_env_rev) 0
           (discovery_segments ex_env_rev processingLimit 0 ex_results {})))"
proof -
  have n: "4 \<le> length (concat (discovery_segments ex_env_rev processingLimit 0 ex_results {}))"
    by code_simp
  show ?thesis
    using cap_enforcement[of ex_env_rev ex_results] ex_env_rev_permutation n by blast
qed

text \<open>
  C2 as stated fails: the hub page admits four anchors, and with the map iterated in
  reverse the three names retained are not those of the first three anchors.
\<close>

theorem retained_not_first_anchors:
  "map snd (fst (fetchStoreLinksFromMatome ex_env_rev ex_hub {}))
     = [[0x9EBA, 0x5C4B], [0x9BA8, 0x51E6], [0x854E, 0x9EA6], [0x5929, 0x4E3C]]
   \<and> uniqueTitles (SearchBrave_state ex_env_rev ex_results)
     \<noteq> take 3 (map snd (fst (fetchStoreLinksFromMatome ex_env_rev ex_hub {})))"
proof -
  have a: "map snd (fst (fetchStoreLinksFromMatome ex_env_rev ex_hub {}))
     = [[0x9EBA, 0x5C4B], [0x9BA8, 0x51E6], [0x854E, 0x9EA6], [0x5929, 0x4E3C]]"
    by code_simp
  have b: "uniqueTitles (SearchBrave_state ex_env_rev ex_results)
       = [[0x5929, 0x4E3C], [0x854E, 0x9EA6], [0x9BA8, 0x51E6]]"
    by code_simp
  show ?thesis
    unfolding a b by simp
qed

text \<open>
  A direct result for store \<open>13034561\<close>, then the listing page (which links to
  \<open>13034561\<close> and \<open>13034562\<close>), then the hub page (which links to all four).
\<close>

theorem one_entry_per_key_witness:
  "range_is_permutation ex_env
   \<and> uniqueTitles (SearchBrave_state ex_env ex_mixed)
       = [[0x9EBA, 0x5C4B], [0x9BA8, 0x51E6], [0x854E, 0x9EA6]]
   \<and> titleKeys (SearchBrave_state ex_env ex_mixed)
       = [ex_key ''13034561'', ex_key ''13034562'', ex_key ''13034563'']
   \<and> distinct (titleKeys (SearchBrave_state ex_env ex_mixed))"
proof -
  have a: "uniqueTitles (SearchBrave_state ex_env ex_mixed)
       = [[0x9EBA, 0x5C4B], [0x9BA8, 0x51E6], [0x854E, 0x9EA6]]"
    by code_simp
  have b: "titleKeys (SearchBrave_state ex_env ex_mixed)
       = [ex_key ''13034561'', ex_key ''13034562'', ex_key ''13034563'']"
    by code_simp
  show ?thesis
    using one_entry_per_key[OF ex_env_permutation, of ex_mixed] a b ex_env_permutation by blast
qed

theorem scoring_input_joined_witness:
  "range_is_permutation ex_env
   \<and> uniqueTitles (SearchBrave_state ex_env ex_direct) = [[0x9EBA, 0x5C4B]]
   \<and> scoring_input ex_env ex_direct
       = Some (Join (uniqueTitles (SearchBrave_state ex_env ex_direct)) (asc ''; '') @ asc ''; '')"
proof -
  have a: "uniqueTitles (SearchBrave_state ex_env ex_direct) = [[0x9EBA, 0x5C4B]]"
    by code_simp
  then have ne: "uniqueTitles (SearchBrave_state ex_env ex_direct) \<noteq> []"
    by simp
  show ?thesis
    using scoring_input_joined[OF ex_env_permutation ne] a ex_env_permutation by blast
qed

text \<open>
  C4 as stated fails: for the single name U+9EBA U+5C4B the joined text is the name,
  and the argument of \<open>analyzeWithGPT\<close> is the name followed by \<open>"; "\<close>.
\<close>

theorem scoring_input_trailing_separator:
  "uniqueTitles (SearchBrave_state ex_env ex_direct) = [[0x9EBA, 0x5C4B]]
   \<and> Join (uniqueTitles (SearchBrave_state ex_env ex_direct)) (asc ''; '') = [0x9EBA, 0x5C4B]
   \<and> scoring_input ex_env ex_direct = Some [0x9EBA, 0x5C4B, 0x3B, 0x20]"
  by code_simp

theorem rejected_anchor_not_marked_witness:
  "extractStoreName (TrimSpace (Text ex_rejected)) = []
   \<and> extract_anchor ex_env (https_url (asc ''tabelog.com'') (asc ''/tokyo/rstLst/1/''))
        ([], {}) ex_rejected = ([], {})
   \<and> foldl (extract_anchor ex_env (https_url (asc ''tabelog.com'') (asc ''/tokyo/rstLst/1/'')))
        ([], {}) [ex_rejected, ex_accepted]
      = ([(ex_key ''13034561'', [0x9EBA, 0x5C4B])], {ex_key ''13034561''})"
proof -
  let ?base = "https_url (asc ''tabelog.com'') (asc ''/tokyo/rstLst/1/'')"
  let ?parsed = "https_url (asc ''tabelog.com'') (asc ''/tokyo/A1311/A131105/13034561/'')"
  have h1: "Attr_href ex_rejected = Some (ex_store ''13034561'')"
    by (simp add: ex_rejected_def)
  have h2: "url_Parse ex_env (ex_store ''13034561'') = Some ?parsed"
    by code_simp
  have r: "ResolveReference ex_env ?base ?parsed = ?parsed"
    by (simp add: ex_env_def)
  have h3: "isStorePage (ResolveReference ex_env ?base ?parsed)"
    unfolding r by code_simp
  have h4: "ex_key ''13034561'' = normalize_url (URL_String (ResolveReference ex_env ?base ?parsed))"
    unfolding r by code_simp
  have h5: "ex_key ''13034561'' \<notin> {}"
    by simp
  have t1: "extractStoreName (TrimSpace (Text ex_rejected)) = []"
    by code_simp
  have h6: "Attr_href ex_accepted = Some (ex_store ''13034561'')"
    by (simp add: ex_accepted_def)
  have t2: "extractStoreName (TrimSpace (Text ex_accepted)) = [0x9EBA, 0x5C4B]"
    by code_simp
  show ?thesis
    using rejected_anchor_not_marked[OF h1 h2 h3 h4 h5, of "[]" ex_accepted] t1 t2 h6
    by (auto simp: map_set_def)
qed

theorem page_failure_atomic_witness:
  "http_Get ex_env ex_missing = None
   \<and> fetchStoreLinksFromMatome ex_env ex_missing {ex_key ''13034561''}
       = ([], {ex_key ''13034561''})
   \<and> fetchLinksFromListingPage ex_env ex_missing {ex_key ''13034561''}
       = ([], {ex_key ''13034561''})
   \<and> http_Get (ex_env\<lparr>NewDocumentFromReader := \<lambda>body. None\<rparr>) ex_hub = Some (asc ''hub'')
   \<and> fetchStoreLinksFromMatome (ex_env\<lparr>NewDocumentFromReader := \<lambda>body. None\<rparr>) ex_hub
        {ex_key ''13034561''}
       = ([], {ex_key ''13034561''})"
proof -
  let ?broken = "ex_env\<lparr>NewDocumentFromReader := \<lambda>body. None\<rparr>"
  have h: "http_Get ex_env ex_missing = None"
    by code_simp
  then have d: "http_Get ex_env ex_missing = None
             \<or> (\<exists>body. http_Get ex_env ex_missing = Some body
                   \<and> NewDocumentFromReader ex_env body = None)"
    by simp
  have g: "http_Get ?broken ex_hub = Some (asc ''hub'')"
    by code_simp
  then have e: "http_Get ?broken ex_hub = None
             \<or> (\<exists>body. http_Get ?broken ex_hub = Some body
                   \<and> NewDocumentFromReader ?broken body = None)"
    by simp
  from page_failure_atomic[OF d, of "{ex_key ''13034561''}"]
    page_failure_atomic[OF e, of "{ex_key ''13034561''}"] h g
  show ?thesis
    by simp
qed

end
